theory Spec2Isabelle
  imports Complex_Main "HOL-Library.Sublist"
begin

section \<open>Strings and integers of the Python runtime\<close>

text \<open>
  Strings are ASCII character lists. Prices are Python floats. The type of floats is a
  type parameter \<open>'f\<close>, and what the runtime does with floats is a record of
  operations that every function computing with floats takes: the conversion of an
  integer operand (which raises OverflowError when the integer is beyond the range of a
  float), the float that a decimal literal denotes, the float of the integer 0,
  addition, multiplication, division and the built-in \<open>sum\<close>. The two conversions
  between floats and text (\<open>float(s)\<close> and the text the csv writer produces for a
  float) are the parameters \<open>pf\<close> and \<open>rp\<close>. Nothing is assumed of these
  operations: no rounding law, no algebra, no finiteness. What is proved holds of the
  doubles of the runtime as of any other arithmetic.
\<close>

datatype error =
  KeyError | AttributeError | TypeError | ValueError | ZeroDivisionError | OverflowError | EOFError

definition bind_err :: "error + 'a \<Rightarrow> ('a \<Rightarrow> error + 'b) \<Rightarrow> error + 'b" where
  "bind_err x f = (case x of Inl e \<Rightarrow> Inl e | Inr v \<Rightarrow> f v)"

definition is_space :: "char \<Rightarrow> bool" where
  "is_space c = ((of_char c :: nat) \<in> {9, 10, 11, 12, 13, 28, 29, 30, 31, 32})"

definition is_digit :: "char \<Rightarrow> bool" where
  "is_digit c = (48 \<le> (of_char c :: nat) \<and> (of_char c :: nat) \<le> 57)"

definition is_upper :: "char \<Rightarrow> bool" where
  "is_upper c = (65 \<le> (of_char c :: nat) \<and> (of_char c :: nat) \<le> 90)"

definition is_lower :: "char \<Rightarrow> bool" where
  "is_lower c = (97 \<le> (of_char c :: nat) \<and> (of_char c :: nat) \<le> 122)"

definition digit_val :: "char \<Rightarrow> nat" where
  "digit_val c = of_char c - 48"

definition digit_char :: "nat \<Rightarrow> char" where
  "digit_char d = char_of (48 + d)"

definition lower_char :: "char \<Rightarrow> char" where
  "lower_char c = (if is_upper c then char_of ((of_char c :: nat) + 32) else c)"

definition upper_char :: "char \<Rightarrow> char" where
  "upper_char c = (if is_lower c then char_of ((of_char c :: nat) - 32) else c)"

text \<open>\<open>str.lower()\<close>\<close>

definition lower :: "string \<Rightarrow> string" where
  "lower s = map lower_char s"

text \<open>\<open>str.strip()\<close>: whitespace is removed at both ends.\<close>

definition strip :: "string \<Rightarrow> string" where
  "strip s = rev (dropWhile is_space (rev (dropWhile is_space s)))"

text \<open>\<open>str.isdigit()\<close>: at least one character, all of them digits.\<close>

definition isdigit :: "string \<Rightarrow> bool" where
  "isdigit s = (s \<noteq> [] \<and> list_all is_digit s)"

text \<open>
  \<open>str.title()\<close>: the first letter of every run of letters in upper case, the others
  in lower case. The flag says whether the previous character was a letter.
\<close>

fun title_from :: "bool \<Rightarrow> string \<Rightarrow> string" where
  "title_from prev [] = []"
| "title_from prev (c # cs) =
     (if is_upper c \<or> is_lower c
      then (if prev then lower_char c else upper_char c) # title_from True cs
      else c # title_from False cs)"

definition title :: "string \<Rightarrow> string" where
  "title s = title_from False s"

text \<open>
  \<open>int(s)\<close>: surrounding whitespace is ignored, then an optional sign, then decimal
  digits in which single underscores may separate digits. \<open>None\<close> is ValueError.
  The whitespace that \<open>int\<close> skips in an ASCII string is narrower than what
  \<open>str.strip()\<close> removes: the separators 28 to 31 are not part of it. The bound that
  an interpreter may put on the number of digits is not modelled.
\<close>

definition is_int_space :: "char \<Rightarrow> bool" where
  "is_int_space c = ((of_char c :: nat) \<in> {9, 10, 11, 12, 13, 32})"

definition int_strip :: "string \<Rightarrow> string" where
  "int_strip s = rev (dropWhile is_int_space (rev (dropWhile is_int_space s)))"

fun uint_acc :: "nat \<Rightarrow> string \<Rightarrow> nat option" where
  "uint_acc a [] = Some a"
| "uint_acc a [c] = (if is_digit c then Some (a * 10 + digit_val c) else None)"
| "uint_acc a (c # d # ds) =
     (if c = CHR ''_''
      then (if is_digit d then uint_acc (a * 10 + digit_val d) ds else None)
      else if is_digit c then uint_acc (a * 10 + digit_val c) (d # ds) else None)"

definition py_uint :: "string \<Rightarrow> nat option" where
  "py_uint s = (case s of [] \<Rightarrow> None
     | c # cs \<Rightarrow> if is_digit c then uint_acc (digit_val c) cs else None)"

definition py_int :: "string \<Rightarrow> int option" where
  "py_int s = (case int_strip s of [] \<Rightarrow> None
     | c # cs \<Rightarrow>
         if c = CHR ''-'' then map_option (\<lambda>n. - int n) (py_uint cs)
         else if c = CHR ''+'' then map_option int (py_uint cs)
         else map_option int (py_uint (c # cs)))"

text \<open>\<open>str(n)\<close> for an integer: its decimal digits, after a minus sign when negative.\<close>

fun str_nat :: "nat \<Rightarrow> string" where
  "str_nat n = (if n < 10 then [digit_char n] else str_nat (n div 10) @ [digit_char (n mod 10)])"

declare str_nat.simps [simp del]

definition str_int :: "int \<Rightarrow> string" where
  "str_int i = (if i < 0 then CHR ''-'' # str_nat (nat (- i)) else str_nat (nat i))"

section \<open>Floats\<close>

record 'f arith =
  int_to_float :: "int \<Rightarrow> 'f option"
  float_lit :: "rat \<Rightarrow> 'f"
  fzero :: 'f
  fadd :: "'f \<Rightarrow> 'f \<Rightarrow> 'f"
  fmul :: "'f \<Rightarrow> 'f \<Rightarrow> 'f"
  fdiv :: "'f \<Rightarrow> 'f \<Rightarrow> 'f"
  fsum :: "'f list \<Rightarrow> 'f"

text \<open>
  \<open>x * n\<close>, \<open>n * x\<close> and \<open>x / n\<close> for a float \<open>x\<close> and an integer
  \<open>n\<close>: the integer is converted first, which may raise OverflowError; a division
  by the integer 0 raises ZeroDivisionError.
\<close>

definition mul_float_int :: "'f arith \<Rightarrow> 'f \<Rightarrow> int \<Rightarrow> error + 'f" where
  "mul_float_int ar x n = (case int_to_float ar n of
       None \<Rightarrow> Inl OverflowError
     | Some y \<Rightarrow> Inr (fmul ar x y))"

definition mul_int_float :: "'f arith \<Rightarrow> int \<Rightarrow> 'f \<Rightarrow> error + 'f" where
  "mul_int_float ar n x = (case int_to_float ar n of
       None \<Rightarrow> Inl OverflowError
     | Some y \<Rightarrow> Inr (fmul ar y x))"

definition div_float_int :: "'f arith \<Rightarrow> 'f \<Rightarrow> int \<Rightarrow> error + 'f" where
  "div_float_int ar x n = (case int_to_float ar n of
       None \<Rightarrow> Inl OverflowError
     | Some y \<Rightarrow> if n = 0 then Inl ZeroDivisionError else Inr (fdiv ar x y))"

section \<open>The item table\<close>

record 'f item =
  quantity :: int
  price :: 'f
  units_per_box :: int
  critical_level :: int
  per_unit_price :: 'f

text \<open>
  A Python dict keeps its keys in insertion order: an association list with one entry
  per key. Assigning to a key that is present replaces the value where it stands;
  assigning to a new key appends.
\<close>

type_synonym 'v dict = "(string \<times> 'v) list"

fun dict_set :: "'v dict \<Rightarrow> string \<Rightarrow> 'v \<Rightarrow> 'v dict" where
  "dict_set [] k v = [(k, v)]"
| "dict_set ((k', v') # d) k v = (if k' = k then (k, v) # d else (k', v') # dict_set d k v)"

definition dict_get :: "'v dict \<Rightarrow> string \<Rightarrow> error + 'v" where
  "dict_get d k = (case map_of d k of None \<Rightarrow> Inl KeyError | Some v \<Rightarrow> Inr v)"

type_synonym 'f inventory = "'f item dict"

text \<open>
  A row as \<open>csv.DictReader\<close> yields it and \<open>csv.DictWriter\<close> takes it: a dict from
  column names to cells. A cell of a row shorter than the header is Python's \<open>None\<close>.
  The file is the list of its rows after the header, or absent.
\<close>

type_synonym row = "string \<rightharpoonup> string option"

datatype 'f out =
    NotFound
  | InventoryHeader
  | InventoryColumns
  | InventoryRow nat string int 'f 'f
  | InventoryFooter
  | AlertsHeader
  | LowStock string int int
  | AllStocked
  | DailyHeader
  | DailyPrompt nat string
  | InvalidSkipping
  | OrderHeader
  | ChoicePrompt
  | InvalidChoice
  | QtyPrompt string
  | MustBePositive
  | InvalidQuantity
  | SummaryHeader
  | SummaryColumns
  | SummaryLine string int 'f 'f
  | SummaryRule
  | Subtotal 'f
  | GST 'f
  | GrandTotal 'f
  | WasteHeader
  | WastePrompt nat string
  | WasteTotal 'f
  | Menu
  | OptionPrompt
  | SavedExiting
  | InvalidOption

record 'f state =
  inventory :: "'f inventory"
  disk :: "row list option"
  stdin :: "string list"
  stdout :: "'f out list"

definition print :: "'f out \<Rightarrow> 'f state \<Rightarrow> 'f state" where
  "print x s = s\<lparr>stdout := stdout s @ [x]\<rparr>"

text \<open>\<open>input(prompt)\<close>: the prompt is printed, then a line is read; at end of input EOFError.\<close>

definition input :: "'f out \<Rightarrow> 'f state \<Rightarrow> (error + string) \<times> 'f state" where
  "input p s = (case stdin s of
       [] \<Rightarrow> (Inl EOFError, print p s)
     | l # ls \<Rightarrow> (Inr l, (print p s)\<lparr>stdin := ls\<rparr>))"

section \<open>load_inventory and save_inventory\<close>

definition GST_RATE :: "'f arith \<Rightarrow> 'f" where
  "GST_RATE ar = float_lit ar 0.05"

definition cell :: "row \<Rightarrow> string \<Rightarrow> error + string option" where
  "cell r k = (case r k of None \<Rightarrow> Inl KeyError | Some c \<Rightarrow> Inr c)"

definition lower_cell :: "string option \<Rightarrow> error + string" where
  "lower_cell c = (case c of None \<Rightarrow> Inl AttributeError | Some s \<Rightarrow> Inr (lower s))"

definition int_cell :: "string option \<Rightarrow> error + int" where
  "int_cell c = (case c of None \<Rightarrow> Inl TypeError
     | Some s \<Rightarrow> (case py_int s of None \<Rightarrow> Inl ValueError | Some n \<Rightarrow> Inr n))"

definition float_cell :: "(string \<Rightarrow> 'f option) \<Rightarrow> string option \<Rightarrow> error + 'f" where
  "float_cell pf c = (case c of None \<Rightarrow> Inl TypeError
     | Some s \<Rightarrow> (case pf s of None \<Rightarrow> Inl ValueError | Some x \<Rightarrow> Inr x))"

text \<open>The body of the loop of \<open>load_inventory\<close> up to the dict assignment.\<close>

definition load_row ::
  "(string \<Rightarrow> 'f option) \<Rightarrow> 'f arith \<Rightarrow> row \<Rightarrow> error + string \<times> 'f item" where
  "load_row pf ar r =
     bind_err (bind_err (cell r ''name'') lower_cell) (\<lambda>name.
     bind_err (bind_err (cell r ''quantity'') int_cell) (\<lambda>q.
     bind_err (bind_err (cell r ''price'') (float_cell pf)) (\<lambda>p.
     bind_err (bind_err (cell r ''units_per_box'') int_cell) (\<lambda>units.
     bind_err (bind_err (cell r ''critical_level'') int_cell) (\<lambda>critical.
     bind_err (div_float_int ar p units) (\<lambda>per_unit.
     Inr (name, \<lparr>quantity = q, price = p, units_per_box = units,
                  critical_level = critical, per_unit_price = per_unit\<rparr>)))))))"

fun load_rows ::
  "(string \<Rightarrow> 'f option) \<Rightarrow> 'f arith \<Rightarrow> 'f inventory \<Rightarrow> row list \<Rightarrow> error + 'f inventory" where
  "load_rows pf ar tbl [] = Inr tbl"
| "load_rows pf ar tbl (r # rs) =
     (case load_row pf ar r of Inl e \<Rightarrow> Inl e
      | Inr (name, it) \<Rightarrow> load_rows pf ar (dict_set tbl name it) rs)"

definition load_inventory ::
  "(string \<Rightarrow> 'f option) \<Rightarrow> 'f arith \<Rightarrow> 'f state \<Rightarrow> (error + 'f inventory) \<times> 'f state" where
  "load_inventory pf ar s = (case disk s of
       None \<Rightarrow> (Inr [], print NotFound s)
     | Some rows \<Rightarrow> (load_rows pf ar [] rows, s))"

definition save_row :: "('f \<Rightarrow> string) \<Rightarrow> string \<times> 'f item \<Rightarrow> row" where
  "save_row rp = (\<lambda>(name, data).
     [''name'' \<mapsto> Some name,
      ''quantity'' \<mapsto> Some (str_int (quantity data)),
      ''price'' \<mapsto> Some (rp (price data)),
      ''units_per_box'' \<mapsto> Some (str_int (units_per_box data)),
      ''critical_level'' \<mapsto> Some (str_int (critical_level data))])"

definition save_inventory :: "('f \<Rightarrow> string) \<Rightarrow> 'f state \<Rightarrow> 'f state" where
  "save_inventory rp s = s\<lparr>disk := Some (map (save_row rp) (inventory s))\<rparr>"

section \<open>The viewer\<close>

fun show_rows :: "nat \<Rightarrow> 'f inventory \<Rightarrow> 'f state \<Rightarrow> 'f state" where
  "show_rows i [] s = s"
| "show_rows i ((name, it) # rest) s =
     show_rows (Suc i) rest
       (print (InventoryRow i (title name) (quantity it) (price it) (per_unit_price it)) s)"

definition show_inventory :: "'f state \<Rightarrow> 'f state" where
  "show_inventory s =
     print InventoryFooter
       (show_rows 1 (inventory s) (print InventoryColumns (print InventoryHeader s)))"

text \<open>The loop of \<open>show_low_stock_alerts\<close> with its flag \<open>found\<close>.\<close>

fun alerts_loop :: "bool \<Rightarrow> 'f inventory \<Rightarrow> 'f state \<Rightarrow> bool \<times> 'f state" where
  "alerts_loop found [] s = (found, s)"
| "alerts_loop found ((name, it) # rest) s =
     (if quantity it < critical_level it
      then alerts_loop True rest
             (print (LowStock (title name) (quantity it) (critical_level it)) s)
      else alerts_loop found rest s)"

definition show_low_stock_alerts :: "'f state \<Rightarrow> 'f state" where
  "show_low_stock_alerts s =
     (case alerts_loop False (inventory s) (print AlertsHeader s) of
        (found, s') \<Rightarrow> if \<not> found then print AllStocked s' else s')"

section \<open>daily_inventory_entry\<close>

text \<open>\<open>inventory[name]['quantity'] = q\<close>\<close>

definition set_quantity :: "'f inventory \<Rightarrow> string \<Rightarrow> int \<Rightarrow> error + 'f inventory" where
  "set_quantity d name q = (case map_of d name of
       None \<Rightarrow> Inl KeyError
     | Some it \<Rightarrow> Inr (dict_set d name (it\<lparr>quantity := q\<rparr>)))"

text \<open>
  The loop runs over the names of the table; \<open>int(input(...))\<close> raises ValueError on
  text that is no integer, which the loop catches, and EOFError at end of input, which
  it does not.
\<close>

fun daily_loop :: "nat \<Rightarrow> string list \<Rightarrow> 'f state \<Rightarrow> error option \<times> 'f state" where
  "daily_loop i [] s = (None, s)"
| "daily_loop i (name # rest) s =
     (case input (DailyPrompt i (title name)) s of
        (Inl e, s') \<Rightarrow> (Some e, s')
      | (Inr l, s') \<Rightarrow>
          (case py_int l of
             None \<Rightarrow> daily_loop (Suc i) rest (print InvalidSkipping s')
           | Some new_qty \<Rightarrow>
               (case set_quantity (inventory s') name new_qty of
                  Inl e \<Rightarrow> (Some e, s')
                | Inr d \<Rightarrow> daily_loop (Suc i) rest (s'\<lparr>inventory := d\<rparr>))))"

definition daily_inventory_entry :: "'f state \<Rightarrow> error option \<times> 'f state" where
  "daily_inventory_entry s =
     daily_loop 1 (map fst (inventory s)) (print DailyHeader s)"

section \<open>place_order\<close>

record 'f order_line =
  qty :: int
  unit_price :: 'f
  subtotal :: 'f

datatype flow = Continue | Break | Raise error

text \<open>One pass through the body of the \<open>while True\<close> loop of \<open>place_order\<close>.\<close>

definition order_iter ::
  "'f arith \<Rightarrow> string list \<Rightarrow> 'f order_line dict \<Rightarrow> 'f state \<Rightarrow>
     flow \<times> 'f order_line dict \<times> 'f state" where
  "order_iter ar items order s =
     (case input ChoicePrompt s of
        (Inl e, s1) \<Rightarrow> (Raise e, order, s1)
      | (Inr l, s1) \<Rightarrow>
          (let choice = lower (strip l) in
           if choice = ''done'' then (Break, order, s1)
           else if \<not> isdigit choice then (Continue, order, print InvalidChoice s1)
           else (case py_int choice of
              None \<Rightarrow> (Raise ValueError, order, s1)
            | Some c \<Rightarrow>
                if \<not> (1 \<le> c \<and> c \<le> int (length items))
                then (Continue, order, print InvalidChoice s1)
                else (let name = items ! nat (c - 1) in
                  case input (QtyPrompt (title name)) s1 of
                    (Inl e, s2) \<Rightarrow> (Raise e, order, s2)
                  | (Inr l2, s2) \<Rightarrow>
                      (case py_int l2 of
                         None \<Rightarrow> (Continue, order, print InvalidQuantity s2)
                       | Some q \<Rightarrow>
                           if q \<le> 0 then (Continue, order, print MustBePositive s2)
                           else (case dict_get (inventory s2) name of
                              Inl e \<Rightarrow> (Raise e, order, s2)
                            | Inr it \<Rightarrow>
                                (case mul_float_int ar (price it) q of
                                   Inl e \<Rightarrow> (Raise e, order, s2)
                                 | Inr sub \<Rightarrow>
                                     (Continue,
                                      dict_set order name
                                        \<lparr>qty = q, unit_price = price it, subtotal = sub\<rparr>,
                                      s2\<lparr>inventory :=
                                           dict_set (inventory s2) name
                                             (it\<lparr>quantity := quantity it + q\<rparr>)\<rparr>))))))))"

lemma input_stdin:
  "input p s = (Inr l, s') \<Longrightarrow> stdin s = l # stdin s'"
  by (auto simp: input_def print_def split: list.splits)

lemma input_stdin_err:
  "input p s = (Inl e, s') \<Longrightarrow> stdin s' = stdin s"
  by (auto simp: input_def print_def split: list.splits)

lemma stdin_print [simp]: "stdin (print x s) = stdin s"
  by (simp add: print_def)

lemma order_iter_stdin:
  "order_iter ar items order s = (Continue, order', s') \<Longrightarrow>
   length (stdin s') < length (stdin s)"
  by (auto simp: order_iter_def Let_def
      split: prod.splits sum.splits if_splits option.splits dest!: input_stdin)

function order_loop ::
  "'f arith \<Rightarrow> string list \<Rightarrow> 'f order_line dict \<Rightarrow> 'f state \<Rightarrow>
     error option \<times> 'f order_line dict \<times> 'f state" where
  "order_loop ar items order s =
     (case order_iter ar items order s of
        (Continue, order', s') \<Rightarrow> order_loop ar items order' s'
      | (Break, order', s') \<Rightarrow> (None, order', s')
      | (Raise e, order', s') \<Rightarrow> (Some e, order', s'))"
  by pat_completeness auto
termination
  by (relation "measure (\<lambda>(ar, items, order, s). length (stdin s))")
    (auto dest: order_iter_stdin [OF sym])

declare order_loop.simps [simp del]

fun summary_lines :: "'f order_line dict \<Rightarrow> 'f state \<Rightarrow> 'f state" where
  "summary_lines [] s = s"
| "summary_lines ((name, line) # rest) s =
     summary_lines rest
       (print (SummaryLine (title name) (qty line) (unit_price line) (subtotal line)) s)"

definition order_summary :: "'f arith \<Rightarrow> 'f order_line dict \<Rightarrow> 'f state \<Rightarrow> 'f state" where
  "order_summary ar order s =
     (if order \<noteq> [] then
        (let order_total = fsum ar (map (\<lambda>line. subtotal (snd line)) order);
             gst = fmul ar order_total (GST_RATE ar);
             grand_total = fadd ar order_total gst
         in print (GrandTotal grand_total)
              (print (GST gst)
                (print (Subtotal order_total)
                  (print SummaryRule
                    (summary_lines order
                      (print SummaryColumns (print SummaryHeader s)))))))
      else s)"

definition place_order :: "'f arith \<Rightarrow> 'f state \<Rightarrow> error option \<times> 'f state" where
  "place_order ar s =
     (let s0 = print OrderHeader (show_inventory s) in
      case order_loop ar (map fst (inventory s0)) [] s0 of
        (Some e, order, s') \<Rightarrow> (Some e, s')
      | (None, order, s') \<Rightarrow> (None, order_summary ar order s'))"

section \<open>waste_entry\<close>

text \<open>
  The running total starts as the integer 0, which the first addition converts to the
  float \<open>fzero\<close>. The OverflowError of \<open>units_wasted * per_unit_price\<close> is not a
  ValueError, so the loop does not catch it.
\<close>

fun waste_loop ::
  "'f arith \<Rightarrow> nat \<Rightarrow> 'f inventory \<Rightarrow> 'f \<Rightarrow> 'f state \<Rightarrow> error option \<times> 'f \<times> 'f state" where
  "waste_loop ar i [] total_waste_cost s = (None, total_waste_cost, s)"
| "waste_loop ar i ((name, it) # rest) total_waste_cost s =
     (case input (WastePrompt i (title name)) s of
        (Inl e, s') \<Rightarrow> (Some e, total_waste_cost, s')
      | (Inr l, s') \<Rightarrow>
          (case py_int l of
             None \<Rightarrow> waste_loop ar (Suc i) rest total_waste_cost (print InvalidSkipping s')
           | Some units_wasted \<Rightarrow>
               (case mul_int_float ar units_wasted (per_unit_price it) of
                  Inl e \<Rightarrow> (Some e, total_waste_cost, s')
                | Inr cost \<Rightarrow>
                    waste_loop ar (Suc i) rest (fadd ar total_waste_cost cost) s')))"

definition waste_entry :: "'f arith \<Rightarrow> 'f state \<Rightarrow> error option \<times> 'f state" where
  "waste_entry ar s =
     (case waste_loop ar 1 (inventory s) (fzero ar) (print WasteHeader s) of
        (Some e, total_waste_cost, s') \<Rightarrow> (Some e, s')
      | (None, total_waste_cost, s') \<Rightarrow> (None, print (WasteTotal total_waste_cost) s'))"

section \<open>main\<close>

text \<open>One pass through the body of the menu loop.\<close>

definition menu_iter :: "('f \<Rightarrow> string) \<Rightarrow> 'f arith \<Rightarrow> 'f state \<Rightarrow> flow \<times> 'f state" where
  "menu_iter rp ar s =
     (case input OptionPrompt (print Menu s) of
        (Inl e, s1) \<Rightarrow> (Raise e, s1)
      | (Inr l, s1) \<Rightarrow>
          (let option = strip l in
           if option = ''1'' then (Continue, show_inventory (show_low_stock_alerts s1))
           else if option = ''2'' then
             (case daily_inventory_entry (show_low_stock_alerts s1) of
                (Some e, s2) \<Rightarrow> (Raise e, s2)
              | (None, s2) \<Rightarrow> (Continue, s2))
           else if option = ''3'' then
             (case place_order ar (show_low_stock_alerts s1) of
                (Some e, s2) \<Rightarrow> (Raise e, s2)
              | (None, s2) \<Rightarrow> (Continue, s2))
           else if option = ''4'' then
             (case waste_entry ar s1 of
                (Some e, s2) \<Rightarrow> (Raise e, s2)
              | (None, s2) \<Rightarrow> (Continue, s2))
           else if option = ''5'' then (Break, print SavedExiting (save_inventory rp s1))
           else (Continue, print InvalidOption s1)))"

lemma stdin_show_rows [simp]: "stdin (show_rows i tbl s) = stdin s"
  by (induction i tbl s rule: show_rows.induct) simp_all

lemma stdin_show_inventory [simp]: "stdin (show_inventory s) = stdin s"
  by (simp add: show_inventory_def)

lemma stdin_alerts_loop [simp]: "stdin (snd (alerts_loop found tbl s)) = stdin s"
  by (induction found tbl s rule: alerts_loop.induct) simp_all

lemma stdin_show_low_stock_alerts [simp]: "stdin (show_low_stock_alerts s) = stdin s"
proof -
  obtain found s' where a: "alerts_loop False (inventory s) (print AlertsHeader s) = (found, s')"
    by (cases "alerts_loop False (inventory s) (print AlertsHeader s)")
  have "stdin s' = stdin (print AlertsHeader s)"
    using stdin_alerts_loop [of False "inventory s" "print AlertsHeader s"] a by simp
  then show ?thesis
    by (simp add: show_low_stock_alerts_def a)
qed

lemma stdin_daily_loop: "length (stdin (snd (daily_loop i names s))) \<le> length (stdin s)"
proof (induction i names s rule: daily_loop.induct)
  case (1 i s)
  then show ?case by simp
next
  case (2 i name rest s)
  show ?case
  proof (cases "input (DailyPrompt i (title name)) s")
    case (Pair r s')
    show ?thesis
    proof (cases r)
      case (Inl e)
      then show ?thesis using Pair input_stdin_err [of _ s e s'] by simp
    next
      case (Inr l)
      then have st: "stdin s = l # stdin s'"
        using Pair input_stdin by blast
      show ?thesis
      proof (cases "py_int l")
        case None
        then show ?thesis
          using "2.IH"(1) [of "Inr l" s' l] Pair Inr st by simp
      next
        case (Some q)
        show ?thesis
        proof (cases "set_quantity (inventory s') name q")
          case (Inl e)
          then show ?thesis using Pair Inr Some st by simp
        next
          case (Inr d)
          then show ?thesis
            using "2.IH"(2) [of "Inr l" s' l q d] Pair \<open>r = Inr l\<close> Some st by simp
        qed
      qed
    qed
  qed
qed

lemma stdin_daily_inventory_entry:
  "length (stdin (snd (daily_inventory_entry s))) \<le> length (stdin s)"
  using stdin_daily_loop [of 1 "map fst (inventory s)" "print DailyHeader s"]
  unfolding daily_inventory_entry_def by simp

lemma order_loop_Continue:
  "order_iter ar items order s = (Continue, order', s') \<Longrightarrow>
   order_loop ar items order s = order_loop ar items order' s'"
  by (simp add: order_loop.simps [of ar items order s])

lemma order_loop_Break:
  "order_iter ar items order s = (Break, order', s') \<Longrightarrow>
   order_loop ar items order s = (None, order', s')"
  by (simp add: order_loop.simps [of ar items order s])

lemma order_loop_Raise:
  "order_iter ar items order s = (Raise e, order', s') \<Longrightarrow>
   order_loop ar items order s = (Some e, order', s')"
  by (simp add: order_loop.simps [of ar items order s])

lemma order_loop_induct [consumes 0, case_names iter]:
  assumes "\<And>ar items order s.
     (\<And>order' s'. order_iter ar items order s = (Continue, order', s') \<Longrightarrow> P ar items order' s')
     \<Longrightarrow> P ar items order s"
  shows "P ar items order s"
proof (induction ar items order s rule: order_loop.induct)
  case (1 ar items order s)
  show ?case
  proof (rule assms)
    fix order' s'
    assume "order_iter ar items order s = (Continue, order', s')"
    then show "P ar items order' s'"
      using "1.IH" [of Continue "(order', s')" order' s'] by simp
  qed
qed

lemma order_iter_stdin_le:
  "order_iter ar items order s = (f, order', s') \<Longrightarrow> length (stdin s') \<le> length (stdin s)"
  by (auto simp: order_iter_def Let_def
      split: prod.splits sum.splits if_splits option.splits
      dest!: input_stdin input_stdin_err)

lemma stdin_order_loop:
  "length (stdin (snd (snd (order_loop ar items order s)))) \<le> length (stdin s)"
proof (induction ar items order s rule: order_loop_induct)
  case (iter ar items order s)
  obtain f order' s' where it: "order_iter ar items order s = (f, order', s')"
    by (cases "order_iter ar items order s")
  note le = order_iter_stdin_le [OF it]
  show ?case
  proof (cases f)
    case Continue
    then show ?thesis
      using iter [of order' s'] it le by (simp add: order_loop_Continue)
  next
    case Break
    then show ?thesis using it le by (simp add: order_loop_Break)
  next
    case (Raise e)
    then show ?thesis using it le by (simp add: order_loop_Raise)
  qed
qed

lemma stdin_summary_lines [simp]: "stdin (summary_lines order s) = stdin s"
  by (induction order s rule: summary_lines.induct) simp_all

lemma stdin_order_summary [simp]: "stdin (order_summary ar order s) = stdin s"
  by (simp add: order_summary_def Let_def)

lemma stdin_place_order: "length (stdin (snd (place_order ar s))) \<le> length (stdin s)"
proof -
  let ?s0 = "print OrderHeader (show_inventory s)"
  obtain r order s' where ol: "order_loop ar (map fst (inventory ?s0)) [] ?s0 = (r, order, s')"
    by (cases "order_loop ar (map fst (inventory ?s0)) [] ?s0")
  have "length (stdin s') \<le> length (stdin ?s0)"
    using stdin_order_loop [of ar "map fst (inventory ?s0)" "[]" ?s0] ol by simp
  then show ?thesis
    unfolding place_order_def Let_def ol by (cases r) simp_all
qed

lemma stdin_waste_loop:
  "length (stdin (snd (snd (waste_loop ar i tbl acc s)))) \<le> length (stdin s)"
proof (induction tbl arbitrary: i acc s)
  case Nil
  then show ?case by simp
next
  case (Cons a tbl)
  obtain name it where a: "a = (name, it)" by (cases a)
  show ?case
  proof (cases "stdin s")
    case Nil
    then show ?thesis by (simp add: a input_def)
  next
    case (Cons l ls)
    let ?s1 = "(print (WastePrompt i (title name)) s)\<lparr>stdin := ls\<rparr>"
    have inp: "input (WastePrompt i (title name)) s = (Inr l, ?s1)"
      by (simp add: input_def Cons)
    have le: "\<And>j acc' t. stdin t = ls \<Longrightarrow>
        length (stdin (snd (snd (waste_loop ar j tbl acc' t)))) \<le> length (stdin s)"
      using Cons.IH Cons by (metis le_SucI length_Cons)
    show ?thesis
    proof (cases "py_int l")
      case None
      then show ?thesis
        using le [of "print InvalidSkipping ?s1" "Suc i" acc] by (simp add: a inp)
    next
      case (Some u)
      show ?thesis
      proof (cases "mul_int_float ar u (per_unit_price it)")
        case (Inl e)
        then show ?thesis by (simp add: a inp Some Cons)
      next
        case (Inr cost)
        then show ?thesis
          using le [of ?s1 "Suc i" "fadd ar acc cost"] by (simp add: a inp Some)
      qed
    qed
  qed
qed

lemma stdin_waste_entry: "length (stdin (snd (waste_entry ar s))) \<le> length (stdin s)"
proof -
  obtain r acc s' where wl: "waste_loop ar 1 (inventory s) (fzero ar) (print WasteHeader s) = (r, acc, s')"
    by (cases "waste_loop ar 1 (inventory s) (fzero ar) (print WasteHeader s)")
  have "length (stdin s') \<le> length (stdin (print WasteHeader s))"
    using stdin_waste_loop [of ar 1 "inventory s" "fzero ar" "print WasteHeader s"] wl by simp
  then show ?thesis
    unfolding waste_entry_def wl by (cases r) simp_all
qed

lemma stdin_save_inventory [simp]: "stdin (save_inventory rp s) = stdin s"
  by (simp add: save_inventory_def)

lemma menu_iter_stdin:
  assumes "menu_iter rp ar s = (Continue, s')"
  shows "length (stdin s') < length (stdin s)"
proof -
  obtain l s1 where inp: "input OptionPrompt (print Menu s) = (Inr l, s1)"
    using assms by (auto simp: menu_iter_def split: prod.splits sum.splits)
  then have st: "length (stdin s1) < length (stdin s)"
    using input_stdin [OF inp] by simp
  have "length (stdin s') \<le> length (stdin s1)"
    using assms inp
      stdin_daily_inventory_entry [of "show_low_stock_alerts s1"]
      stdin_place_order [of ar "show_low_stock_alerts s1"]
      stdin_waste_entry [of ar s1]
    by (auto simp: menu_iter_def Let_def split: if_splits prod.splits option.splits)
  then show ?thesis using st by simp
qed

function main_loop ::
  "('f \<Rightarrow> string) \<Rightarrow> 'f arith \<Rightarrow> 'f state \<Rightarrow> error option \<times> 'f state" where
  "main_loop rp ar s =
     (case menu_iter rp ar s of
        (Continue, s') \<Rightarrow> main_loop rp ar s'
      | (Break, s') \<Rightarrow> (None, s')
      | (Raise e, s') \<Rightarrow> (Some e, s'))"
  by pat_completeness auto
termination
  by (relation "measure (\<lambda>(rp, ar, s). length (stdin s))")
    (auto dest: menu_iter_stdin [OF sym])

declare main_loop.simps [simp del]

definition main ::
  "(string \<Rightarrow> 'f option) \<Rightarrow> ('f \<Rightarrow> string) \<Rightarrow> 'f arith \<Rightarrow> 'f state \<Rightarrow>
     error option \<times> 'f state" where
  "main pf rp ar s =
     (case load_inventory pf ar s of
        (Inl e, s') \<Rightarrow> (Some e, s')
      | (Inr tbl, s') \<Rightarrow> main_loop rp ar (show_low_stock_alerts (s'\<lparr>inventory := tbl\<rparr>)))"

section \<open>Notions used in the statements\<close>

text \<open>
  The picks that a sequence of input lines makes in the loop of \<open>place_order\<close>, read
  as the loop reads them: a line that selects one of the \<open>n\<close> items followed by a line
  that is a positive integer which converts to a float is a pick (index from 0, boxes,
  boxes as a float). A line or pair of lines that the loop rejects is passed over. The
  list ends at \<open>done\<close>, where the input ends, and where the loop is left by an error.
\<close>

fun picks :: "'f arith \<Rightarrow> nat \<Rightarrow> string list \<Rightarrow> (nat \<times> int \<times> 'f) list" where
  "picks ar n [] = []"
| "picks ar n (c # rest) =
     (let choice = lower (strip c) in
      if choice = ''done'' then []
      else if \<not> isdigit choice then picks ar n rest
      else (case py_int choice of
         None \<Rightarrow> []
       | Some k \<Rightarrow>
           if \<not> (1 \<le> k \<and> k \<le> int n) then picks ar n rest
           else (case rest of
              [] \<Rightarrow> []
            | l # rest' \<Rightarrow>
                (case py_int l of
                   None \<Rightarrow> picks ar n rest'
                 | Some q \<Rightarrow>
                     if q \<le> 0 then picks ar n rest'
                     else (case int_to_float ar q of
                        None \<Rightarrow> []
                      | Some qf \<Rightarrow> (nat (k - 1), q, qf) # picks ar n rest')))))"

text \<open>What one pick does to the table and to the order record.\<close>

definition add_stock :: "'f inventory \<Rightarrow> nat \<times> int \<times> 'f \<Rightarrow> 'f inventory" where
  "add_stock d = (\<lambda>(j, q, qf).
     d[j := (fst (d ! j), (snd (d ! j))\<lparr>quantity := quantity (snd (d ! j)) + q\<rparr>)])"

definition add_line ::
  "'f arith \<Rightarrow> 'f inventory \<Rightarrow> 'f order_line dict \<Rightarrow> nat \<times> int \<times> 'f \<Rightarrow> 'f order_line dict" where
  "add_line ar d order = (\<lambda>(j, q, qf).
     dict_set order (fst (d ! j))
       \<lparr>qty = q, unit_price = price (snd (d ! j)), subtotal = fmul ar (price (snd (d ! j))) qf\<rparr>)"

text \<open>
  What the loader establishes for every entry of the table: the name is in lower case,
  and the per-unit price is what \<open>price / units_per_box\<close> evaluated to.
\<close>

definition derived :: "'f arith \<Rightarrow> string \<times> 'f item \<Rightarrow> bool" where
  "derived ar = (\<lambda>(name, it). lower name = name \<and>
     div_float_int ar (price it) (units_per_box it) = Inr (per_unit_price it))"

text \<open>The dict assignment \<open>inventory[name] = item\<close> on a pair.\<close>

definition store :: "'v dict \<Rightarrow> string \<times> 'v \<Rightarrow> 'v dict" where
  "store d = (\<lambda>(k, v). dict_set d k v)"


section \<open>Example data\<close>

text \<open>
  The arithmetic of the examples: IEEE binary64 on finite values, as rationals. The
  exact result is rounded to the nearest double, ties to the even mantissa; an integer
  converts when it rounds to a finite double, that is when its magnitude is below
  \<open>2^1024 - 2^970\<close>. The examples stay within the finite range.
\<close>

text \<open>The number of binary digits of a positive integer.\<close>

function bit_length :: "int \<Rightarrow> int" where
  "bit_length a = (if a \<le> 0 then 0 else 1 + bit_length (a div 2))"
  by pat_completeness auto
termination
  by (relation "measure nat") auto

declare bit_length.simps [simp del]

definition pow2 :: "int \<Rightarrow> rat" where
  "pow2 e = (if 0 \<le> e then 2 ^ nat e else 1 / 2 ^ nat (- e))"

text \<open>For \<open>x > 0\<close>, the exponent \<open>e\<close> with \<open>2^e \<le> x < 2^(e+1)\<close>.\<close>

definition ilog2 :: "rat \<Rightarrow> int" where
  "ilog2 x = (case quotient_of x of (a, b) \<Rightarrow>
     (let c = bit_length a - bit_length b
      in if pow2 c \<le> x then c else c - 1))"

definition round_half_even :: "rat \<Rightarrow> int" where
  "round_half_even x =
     (let f = \<lfloor>x\<rfloor>; d = x - of_int f
      in if d < 1 / 2 then f else if 1 / 2 < d then f + 1 else if even f then f else f + 1)"

definition double_round :: "rat \<Rightarrow> rat" where
  "double_round x =
     (if x = 0 then 0
      else (let e = max (ilog2 \<bar>x\<bar>) (- 1022); q = pow2 (e - 52)
            in sgn x * of_int (round_half_even (\<bar>x\<bar> / q)) * q))"

definition binary64 :: "rat arith" where
  "binary64 =
     \<lparr>int_to_float = (\<lambda>n. if \<bar>n\<bar> < 2 ^ 1024 - 2 ^ 970 then Some (double_round (of_int n)) else None),
      float_lit = double_round,
      fzero = 0,
      fadd = (\<lambda>x y. double_round (x + y)),
      fmul = (\<lambda>x y. double_round (x * y)),
      fdiv = (\<lambda>x y. double_round (x / y)),
      fsum = foldl (\<lambda>a x. double_round (a + x)) 0\<rparr>"

text \<open>
  The hundredths that the format \<open>.2f\<close> prints for a finite double: its exact value
  in hundredths, rounded to the nearest integer, ties to even.
\<close>

definition two_decimals :: "rat \<Rightarrow> int" where
  "two_decimals x = round_half_even (x * 100)"

text \<open>An item with the per-unit price that the loader derives in the example arithmetic.\<close>

definition example_item :: "int \<Rightarrow> rat \<Rightarrow> int \<Rightarrow> int \<Rightarrow> rat item" where
  "example_item q p u c =
     \<lparr>quantity = q, price = p, units_per_box = u, critical_level = c,
      per_unit_price = double_round (p / double_round (of_int u))\<rparr>"

text \<open>
  A float codec for the examples: \<open>float\<close> on the price texts that occur in them, and
  the text Python writes for these floats.
\<close>

definition example_float :: "string \<Rightarrow> rat option" where
  "example_float s =
     (if s = ''20.0'' \<or> s = ''20.00'' then Some 20
      else if s = ''8.5'' then Some (17 / 2)
      else if s = ''1.50'' then Some (3 / 2)
      else None)"

definition example_repr :: "rat \<Rightarrow> string" where
  "example_repr x =
     (if x = 20 then ''20.0'' else if x = 17 / 2 then ''8.5''
      else if x = 3 / 2 then ''1.5'' else ''?'')"

definition example_row :: "string \<Rightarrow> string \<Rightarrow> string \<Rightarrow> string \<Rightarrow> string \<Rightarrow> row" where
  "example_row n q p u c =
     [''name'' \<mapsto> Some n, ''quantity'' \<mapsto> Some q, ''price'' \<mapsto> Some p,
      ''units_per_box'' \<mapsto> Some u, ''critical_level'' \<mapsto> Some c]"

section \<open>Integers and their text\<close>

lemma is_digit_not_underscore: "is_digit c \<Longrightarrow> c \<noteq> CHR ''_''"
  by (auto simp: is_digit_def)

lemma uint_acc_digit:
  "is_digit c \<Longrightarrow> uint_acc a (c # cs) = uint_acc (a * 10 + digit_val c) cs"
  by (cases cs) (auto dest: is_digit_not_underscore)

lemma uint_acc_snoc:
  "list_all is_digit ds \<Longrightarrow> is_digit d \<Longrightarrow>
   uint_acc a (ds @ [d]) = map_option (\<lambda>v. v * 10 + digit_val d) (uint_acc a ds)"
  by (induction ds arbitrary: a) (simp_all add: uint_acc_digit)

lemma py_uint_snoc:
  "ds \<noteq> [] \<Longrightarrow> list_all is_digit ds \<Longrightarrow> is_digit d \<Longrightarrow>
   py_uint (ds @ [d]) = map_option (\<lambda>v. v * 10 + digit_val d) (py_uint ds)"
  by (cases ds) (simp_all add: py_uint_def uint_acc_snoc)

lemma digit_char_props:
  "k < 10 \<Longrightarrow> is_digit (digit_char k) \<and> digit_val (digit_char k) = k"
  by (simp add: is_digit_def digit_val_def digit_char_def)

lemma str_nat_digits: "str_nat n \<noteq> [] \<and> list_all is_digit (str_nat n)"
proof (induction n rule: str_nat.induct)
  case (1 n)
  show ?case
  proof (cases "n < 10")
    case True
    then show ?thesis by (simp add: str_nat.simps [of n] digit_char_props)
  next
    case False
    then show ?thesis
      using "1.IH" by (simp add: str_nat.simps [of n] digit_char_props)
  qed
qed

lemma py_uint_str_nat: "py_uint (str_nat n) = Some n"
proof (induction n rule: str_nat.induct)
  case (1 n)
  show ?case
  proof (cases "n < 10")
    case True
    then show ?thesis by (simp add: str_nat.simps [of n] py_uint_def digit_char_props)
  next
    case False
    have "py_uint (str_nat (n div 10) @ [digit_char (n mod 10)]) =
        map_option (\<lambda>v. v * 10 + digit_val (digit_char (n mod 10))) (py_uint (str_nat (n div 10)))"
      using str_nat_digits [of "n div 10"] by (intro py_uint_snoc) (simp_all add: digit_char_props)
    then show ?thesis
      using False "1.IH" by (simp add: str_nat.simps [of n] digit_char_props)
  qed
qed


lemma dropWhile_hd: "xs \<noteq> [] \<Longrightarrow> \<not> P (hd xs) \<Longrightarrow> dropWhile P xs = xs"
  by (cases xs) simp_all

lemma int_strip_id:
  "s \<noteq> [] \<Longrightarrow> \<not> is_int_space (hd s) \<Longrightarrow> \<not> is_int_space (last s) \<Longrightarrow>
   int_strip s = s"
proof -
  assume a: "s \<noteq> []" "\<not> is_int_space (hd s)" "\<not> is_int_space (last s)"
  have 1: "dropWhile is_int_space s = s"
    using a(1,2) by (rule dropWhile_hd)
  have "hd (rev s) = last s" using a(1) by (simp add: hd_rev)
  then have 2: "dropWhile is_int_space (rev s) = rev s"
    using a(1,3) by (intro dropWhile_hd) simp_all
  show ?thesis by (simp add: int_strip_def 1 2)
qed

lemma is_digit_not_int_space: "is_digit c \<Longrightarrow> \<not> is_int_space c"
  by (auto simp: is_digit_def is_int_space_def)

lemma is_digit_not_sign: "is_digit c \<Longrightarrow> c \<noteq> CHR ''-'' \<and> c \<noteq> CHR ''+''"
  by (auto simp: is_digit_def)

lemma digits_hd_last:
  "ds \<noteq> [] \<Longrightarrow> list_all is_digit ds \<Longrightarrow> is_digit (hd ds) \<and> is_digit (last ds)"
  by (cases ds) (auto simp: list_all_iff)

lemma py_int_str_int: "py_int (str_int i) = Some i"
proof (cases "i < 0")
  case True
  let ?ds = "str_nat (nat (- i))"
  note d = str_nat_digits [of "nat (- i)"]
  have "last (CHR ''-'' # ?ds) = last ?ds" using d by simp
  then have "int_strip (CHR ''-'' # ?ds) = CHR ''-'' # ?ds"
    using digits_hd_last [of ?ds] d
    by (intro int_strip_id) (auto simp: is_int_space_def dest: is_digit_not_int_space)
  then show ?thesis
    using True by (simp add: py_int_def str_int_def py_uint_str_nat)
next
  case False
  let ?ds = "str_nat (nat i)"
  note d = str_nat_digits [of "nat i"]
  obtain c cs where cs: "?ds = c # cs" using d by (cases ?ds) auto
  have dg: "is_digit c" using d cs by simp
  have "int_strip ?ds = ?ds"
    using digits_hd_last [of ?ds] d
    by (intro int_strip_id) (auto dest: is_digit_not_int_space)
  then have "py_int ?ds = map_option int (py_uint ?ds)"
    using is_digit_not_sign [OF dg] by (simp add: py_int_def cs)
  then show ?thesis
    using False by (simp add: str_int_def py_uint_str_nat)
qed

lemma uint_acc_zeros: "uint_acc a (replicate n (CHR ''0'')) = Some (a * 10 ^ n)"
proof (induction n arbitrary: a)
  case 0
  then show ?case by simp
next
  case (Suc n)
  have z: "is_digit (CHR ''0'')" "digit_val (CHR ''0'') = 0"
    by (simp_all add: is_digit_def digit_val_def)
  show ?case
    using Suc [of "a * 10"] by (simp add: uint_acc_digit z)
qed

lemma py_int_one_zeros: "py_int (CHR ''1'' # replicate n (CHR ''0'')) = Some (10 ^ n)"
proof -
  have o: "is_digit (CHR ''1'')" "digit_val (CHR ''1'') = 1"
    by (simp_all add: is_digit_def digit_val_def)
  have z: "is_digit (CHR ''0'')"
    by (simp add: is_digit_def)
  have l: "is_digit (last (CHR ''1'' # replicate n (CHR ''0'')))"
    using o(1) z by (cases n) simp_all
  have "int_strip (CHR ''1'' # replicate n (CHR ''0'')) = CHR ''1'' # replicate n (CHR ''0'')"
    using o(1) l by (intro int_strip_id) (auto dest: is_digit_not_int_space)
  then show ?thesis
    by (simp add: py_int_def py_uint_def uint_acc_zeros o)
qed

section \<open>The low-stock scan\<close>

lemma alerts_loop_eq:
  "alerts_loop found tbl s =
     (found \<or> filter (\<lambda>(name, it). quantity it < critical_level it) tbl \<noteq> [],
      s\<lparr>stdout := stdout s @
           map (\<lambda>(name, it). LowStock (title name) (quantity it) (critical_level it))
             (filter (\<lambda>(name, it). quantity it < critical_level it) tbl)\<rparr>)"
  by (induction found tbl s rule: alerts_loop.induct) (simp_all add: print_def)

text \<open>
  C3: the scan changes nothing but the output, to which it appends its header, then one
  warning for each item with \<open>quantity < critical_level\<close> and for no other item, in
  table order, and then the "sufficiently stocked" line exactly when no item has
  \<open>quantity < critical_level\<close>.
\<close>

theorem show_low_stock_alerts_reports:
  "show_low_stock_alerts s =
     s\<lparr>stdout := stdout s @ AlertsHeader #
        map (\<lambda>(name, it). LowStock (title name) (quantity it) (critical_level it))
          (filter (\<lambda>(name, it). quantity it < critical_level it) (inventory s))
        @ (if \<exists>(name, it) \<in> set (inventory s). quantity it < critical_level it
           then [] else [AllStocked])\<rparr>"
  by (auto simp add: show_low_stock_alerts_def alerts_loop_eq print_def filter_empty_conv)

theorem show_low_stock_alerts_reports_witness:
  "stdout (show_low_stock_alerts
     \<lparr>inventory = [(''patty'', example_item 10 20 50 5), (''bun'', example_item 2 8 40 5)],
      disk = None, stdin = [], stdout = []\<rparr>)
   = [AlertsHeader, LowStock ''Bun'' 2 5]
   \<and> stdout (show_low_stock_alerts
     \<lparr>inventory = [(''patty'', example_item 10 20 50 5)],
      disk = None, stdin = [], stdout = []\<rparr>)
   = [AlertsHeader, AllStocked]"
proof -
  have t: "title ''bun'' = ''Bun''" by code_simp
  show ?thesis
    by (simp add: show_low_stock_alerts_reports example_item_def t)
qed

section \<open>The waste logger\<close>

lemma waste_loop_frame:
  "inventory (snd (snd (waste_loop ar i tbl acc s))) = inventory s \<and>
   disk (snd (snd (waste_loop ar i tbl acc s))) = disk s"
  by (induction tbl arbitrary: i acc s)
     (auto simp: input_def print_def split: list.splits option.splits sum.splits)

lemma prefix_append_left: "prefix (xs @ ys) zs \<Longrightarrow> prefix xs zs"
  by (auto simp: prefix_def)

lemma waste_loop_stdout:
  "prefix (stdout s) (stdout (snd (snd (waste_loop ar i tbl acc s))))"
proof (induction tbl arbitrary: i acc s)
  case Nil
  then show ?case by simp
next
  case (Cons a tbl)
  obtain name it where a: "a = (name, it)" by (cases a)
  show ?case
  proof (cases "stdin s")
    case Nil
    then show ?thesis by (simp add: a input_def print_def)
  next
    case (Cons l ls)
    let ?s1 = "(print (WastePrompt i (title name)) s)\<lparr>stdin := ls\<rparr>"
    have p1: "prefix (stdout s) (stdout ?s1)" by (simp add: print_def)
    show ?thesis
    proof (cases "py_int l")
      case None
      have "prefix (stdout (print InvalidSkipping ?s1))
              (stdout (snd (snd (waste_loop ar (Suc i) tbl acc (print InvalidSkipping ?s1)))))"
        by (rule Cons.IH)
      then have "prefix (stdout s)
              (stdout (snd (snd (waste_loop ar (Suc i) tbl acc (print InvalidSkipping ?s1)))))"
        by (auto simp: print_def dest: prefix_append_left)
      then show ?thesis by (simp add: a input_def Cons None)
    next
      case (Some u)
      show ?thesis
      proof (cases "mul_int_float ar u (per_unit_price it)")
        case (Inl e)
        then show ?thesis using p1 by (simp add: a input_def Cons Some)
      next
        case (Inr cost)
        have "prefix (stdout ?s1)
                (stdout (snd (snd (waste_loop ar (Suc i) tbl (fadd ar acc cost) ?s1))))"
          by (rule Cons.IH)
        then have "prefix (stdout s)
                (stdout (snd (snd (waste_loop ar (Suc i) tbl (fadd ar acc cost) ?s1))))"
          by (auto simp: print_def dest: prefix_append_left)
        then show ?thesis by (simp add: a input_def Cons Some Inr)
      qed
    qed
  qed
qed

text \<open>
  C8: whatever is typed, \<open>waste_entry\<close> leaves the item table and the file as they
  were; it only appends to the output, and when it returns the last line printed is the
  total waste cost.
\<close>

theorem waste_entry_frame:
  "inventory (snd (waste_entry ar s)) = inventory s \<and>
   disk (snd (waste_entry ar s)) = disk s \<and>
   prefix (stdout s) (stdout (snd (waste_entry ar s))) \<and>
   (fst (waste_entry ar s) = None \<longrightarrow>
      (\<exists>cost. last (stdout (snd (waste_entry ar s))) = WasteTotal cost))"
proof -
  obtain r acc s' where wl: "waste_loop ar 1 (inventory s) (fzero ar) (print WasteHeader s) = (r, acc, s')"
    by (cases "waste_loop ar 1 (inventory s) (fzero ar) (print WasteHeader s)")
  have "inventory s' = inventory (print WasteHeader s) \<and> disk s' = disk (print WasteHeader s)"
    using waste_loop_frame [of ar 1 "inventory s" "fzero ar" "print WasteHeader s"] wl by simp
  moreover have "prefix (stdout s) (stdout s')"
    using waste_loop_stdout [of "print WasteHeader s" ar 1 "inventory s" "fzero ar"] wl
    by (auto simp: print_def dest: prefix_append_left)
  ultimately show ?thesis
    unfolding waste_entry_def wl by (cases r) (auto simp add: print_def intro: prefix_order.trans)
qed

theorem waste_entry_frame_witness:
  "waste_entry binary64
     \<lparr>inventory = [(''patty'', example_item 10 20 50 5)],
      disk = Some [], stdin = [''100''], stdout = []\<rparr>
   = (None, \<lparr>inventory = [(''patty'', example_item 10 20 50 5)],
                disk = Some [], stdin = [],
                stdout = [WasteHeader, WastePrompt 1 ''Patty'', WasteTotal 40]\<rparr>)"
proof -
  have t: "title ''patty'' = ''Patty''" by code_simp
  have p: "py_int ''100'' = Some 100" by code_simp
  have m: "mul_int_float binary64 100 (per_unit_price (example_item 10 20 50 5)) = Inr 40"
    by code_simp
  have z: "fadd binary64 (fzero binary64) 40 = 40" by code_simp
  let ?s = "\<lparr>inventory = [(''patty'', example_item 10 20 50 5)],
                disk = Some [], stdin = [''100''], stdout = []\<rparr>"
  have "waste_entry binary64 ?s =
      (None, \<lparr>inventory = [(''patty'', example_item 10 20 50 5)],
                disk = Some [], stdin = [],
                stdout = [WasteHeader, WastePrompt 1 ''Patty'', WasteTotal 40]\<rparr>)"
    by (simp add: waste_entry_def input_def print_def t p m z)
  then show ?thesis using waste_entry_frame [of binary64 ?s] by simp
qed

section \<open>The count updater\<close>

lemma map_of_middle:
  "k \<notin> fst ` set pre \<Longrightarrow> map_of (pre @ (k, v) # post) k = Some v"
  by (induction pre) auto

lemma dict_set_middle:
  "k \<notin> fst ` set pre \<Longrightarrow> dict_set (pre @ (k, v) # post) k w = pre @ (k, w) # post"
  by (induction pre) auto

lemma set_quantity_middle:
  "k \<notin> fst ` set pre \<Longrightarrow>
   set_quantity (pre @ (k, it) # post) k q = Inr (pre @ (k, it\<lparr>quantity := q\<rparr>) # post)"
  by (simp add: set_quantity_def map_of_middle dict_set_middle del: map_of_append)

lemma daily_loop_eq:
  "distinct (map fst (pre @ tbl)) \<Longrightarrow> inventory s = pre @ tbl \<Longrightarrow>
   length tbl \<le> length (stdin s) \<Longrightarrow>
   fst (daily_loop i (map fst tbl) s) = None \<and>
   inventory (snd (daily_loop i (map fst tbl) s)) =
     pre @ map (\<lambda>((name, it), l).
                  (name, case py_int l of None \<Rightarrow> it | Some v \<Rightarrow> it\<lparr>quantity := v\<rparr>))
             (zip tbl (stdin s)) \<and>
   stdin (snd (daily_loop i (map fst tbl) s)) = drop (length tbl) (stdin s) \<and>
   disk (snd (daily_loop i (map fst tbl) s)) = disk s"
proof (induction tbl arbitrary: pre s i)
  case Nil
  then show ?case by simp
next
  case (Cons a tbl)
  obtain name it where a: "a = (name, it)" by (cases a)
  from Cons.prems obtain l ls where st: "stdin s = l # ls"
    by (cases "stdin s") auto
  have fresh: "name \<notin> fst ` set pre"
    using Cons.prems(1) by (auto simp: a)
  let ?p = "print (DailyPrompt i (title name)) s"
  let ?s1 = "?p\<lparr>stdin := ls\<rparr>"
  have inp: "input (DailyPrompt i (title name)) s = (Inr l, ?s1)"
    by (simp add: input_def st)
  show ?case
  proof (cases "py_int l")
    case None
    let ?s2 = "print InvalidSkipping ?s1"
    have d: "distinct (map fst ((pre @ [(name, it)]) @ tbl))"
      using Cons.prems(1) by (simp add: a)
    have i2: "inventory ?s2 = (pre @ [(name, it)]) @ tbl"
      using Cons.prems(2) by (simp add: a print_def)
    have l2: "length tbl \<le> length (stdin ?s2)"
      using Cons.prems(3) by (simp add: st print_def)
    have step: "daily_loop i (map fst (a # tbl)) s = daily_loop (Suc i) (map fst tbl) ?s2"
      by (simp add: a inp None)
    show ?thesis
      unfolding step using Cons.IH [OF d i2 l2, of "Suc i"]
      by (simp add: a None st print_def)
  next
    case (Some v)
    let ?s2 = "?s1\<lparr>inventory := pre @ (name, it\<lparr>quantity := v\<rparr>) # tbl\<rparr>"
    have sq: "set_quantity (inventory ?s1) name v = Inr (pre @ (name, it\<lparr>quantity := v\<rparr>) # tbl)"
      using Cons.prems(2) fresh by (simp add: a print_def set_quantity_middle)
    have d: "distinct (map fst ((pre @ [(name, it\<lparr>quantity := v\<rparr>)]) @ tbl))"
      using Cons.prems(1) by (simp add: a)
    have i2: "inventory ?s2 = (pre @ [(name, it\<lparr>quantity := v\<rparr>)]) @ tbl"
      by simp
    have l2: "length tbl \<le> length (stdin ?s2)"
      using Cons.prems(3) by (simp add: st print_def)
    have step: "daily_loop i (map fst (a # tbl)) s = daily_loop (Suc i) (map fst tbl) ?s2"
      using sq by (simp add: a inp Some)
    show ?thesis
      unfolding step using Cons.IH [OF d i2 l2, of "Suc i"]
      by (simp add: a Some st print_def)
  qed
qed

text \<open>
  C5: when the table has one entry per name and a line of input is there for every item,
  the count updater returns without error having read one line per item, in table order.
  An item whose line is an integer \<open>v\<close> has quantity \<open>v\<close> afterwards, whatever
  it was; an item whose line is no integer is as before, and the items after it are still
  processed. No other field, no name and not the file changes. What counts as an integer is
  what \<open>int\<close> accepts (\<^const>\<open>py_int\<close>): the line \<open>-1\<close> between blanks is one,
  the digits \<open>12\<close> after the character 28 are none.
\<close>

theorem daily_inventory_entry_sets:
  assumes "distinct (map fst (inventory s))"
    and "length (inventory s) \<le> length (stdin s)"
  shows "fst (daily_inventory_entry s) = None \<and>
    inventory (snd (daily_inventory_entry s)) =
      map (\<lambda>((name, it), l).
             (name, case py_int l of None \<Rightarrow> it | Some v \<Rightarrow> it\<lparr>quantity := v\<rparr>))
        (zip (inventory s) (stdin s)) \<and>
    stdin (snd (daily_inventory_entry s)) = drop (length (inventory s)) (stdin s) \<and>
    disk (snd (daily_inventory_entry s)) = disk s"
  unfolding daily_inventory_entry_def
  using daily_loop_eq [of "[]" "inventory s" "print DailyHeader s" 1] assms
  by (simp add: print_def)

theorem daily_inventory_entry_sets_witness:
  "daily_inventory_entry
     \<lparr>inventory = [(''patty'', example_item 10 20 50 5), (''bun'', example_item 2 8 40 5),
                   (''sauce'', example_item 7 12 10 3)],
      disk = None, stdin = [''4'', CHR 0x1C # ''12'', '' -1 '', ''5''], stdout = []\<rparr>
   = (None,
     \<lparr>inventory = [(''patty'', example_item 4 20 50 5), (''bun'', example_item 2 8 40 5),
                   (''sauce'', example_item (-1) 12 10 3)],
      disk = None, stdin = [''5''],
      stdout = [DailyHeader, DailyPrompt 1 ''Patty'', DailyPrompt 2 ''Bun'', InvalidSkipping,
                DailyPrompt 3 ''Sauce'']\<rparr>)"
proof -
  let ?s = "\<lparr>inventory = [(''patty'', example_item 10 20 50 5), (''bun'', example_item 2 8 40 5),
                   (''sauce'', example_item 7 12 10 3)],
      disk = None, stdin = [''4'', CHR 0x1C # ''12'', '' -1 '', ''5''], stdout = []\<rparr>"
  have t: "title ''patty'' = ''Patty''" "title ''bun'' = ''Bun''" "title ''sauce'' = ''Sauce''"
    by code_simp+
  have p: "py_int ''4'' = Some 4" "py_int (CHR 0x1C # ''12'') = None"
      "py_int '' -1 '' = Some (-1)"
    by code_simp+
  have out: "stdout (snd (daily_inventory_entry ?s)) =
     [DailyHeader, DailyPrompt 1 ''Patty'', DailyPrompt 2 ''Bun'', InvalidSkipping,
      DailyPrompt 3 ''Sauce'']"
    by (simp add: daily_inventory_entry_def input_def print_def t p set_quantity_def example_item_def)
  have "distinct (map fst (inventory ?s))" "length (inventory ?s) \<le> length (stdin ?s)"
    by simp_all
  from daily_inventory_entry_sets [OF this] out show ?thesis
    by (cases "daily_inventory_entry ?s") (simp add: p example_item_def)
qed

section \<open>The order processor\<close>

lemma not_isdigit_done: "\<not> isdigit ''done''"
  by (simp add: isdigit_def is_digit_def)

lemma map_of_nth:
  "distinct (map fst d) \<Longrightarrow> j < length d \<Longrightarrow> map_of d (fst (d ! j)) = Some (snd (d ! j))"
  by (metis map_of_eq_Some_iff nth_mem prod.collapse)

lemma dict_set_nth:
  "distinct (map fst d) \<Longrightarrow> j < length d \<Longrightarrow> dict_set d (fst (d ! j)) v = d[j := (fst (d ! j), v)]"
proof (induction d arbitrary: j)
  case Nil
  then show ?case by simp
next
  case (Cons a d)
  obtain k w where a: "a = (k, w)" by (cases a)
  show ?case
  proof (cases j)
    case 0
    then show ?thesis by (simp add: a)
  next
    case (Suc i)
    then have "fst (d ! i) \<noteq> k"
      using Cons.prems by (auto simp: a)
    then show ?thesis
      using Cons.IH [of i] Cons.prems Suc by (simp add: a)
  qed
qed

lemma order_iter_picks:
  assumes "distinct (map fst (inventory s))" and "items = map fst (inventory s)"
  shows "(case order_iter ar items order s of
      (Continue, order', s') \<Rightarrow>
        (picks ar (length items) (stdin s) = picks ar (length items) (stdin s') \<and>
         inventory s' = inventory s \<and> order' = order) \<or>
        (\<exists>p. picks ar (length items) (stdin s) = p # picks ar (length items) (stdin s') \<and>
         fst p < length items \<and>
         inventory s' = add_stock (inventory s) p \<and>
         order' = add_line ar (inventory s) order p)
    | (_, order', s') \<Rightarrow>
        inventory s' = inventory s \<and> order' = order \<and> picks ar (length items) (stdin s) = [])"
proof (cases "stdin s")
  case Nil
  then show ?thesis by (simp add: order_iter_def input_def print_def)
next
  case (Cons c rest)
  note c = Cons
  show ?thesis
  proof (cases "isdigit (lower (strip c)) \<and> (\<exists>k. py_int (lower (strip c)) = Some k \<and> 1 \<le> k \<and> k \<le> int (length items))")
    case False
    then show ?thesis
      by (auto simp add: order_iter_def input_def print_def c Let_def split: option.splits)
  next
    case True
    then obtain k where k: "py_int (lower (strip c)) = Some k" "1 \<le> k" "k \<le> int (length items)"
      and dg: "isdigit (lower (strip c))" by blast
    have nd: "lower (strip c) \<noteq> ''done''"
      using dg not_isdigit_done by auto
    have j: "nat (k - 1) < length (inventory s)"
      using k assms(2) by auto
    have nm: "items ! nat (k - 1) = fst (inventory s ! nat (k - 1))"
      using j assms(2) by simp
    have get: "dict_get (inventory s) (items ! nat (k - 1)) = Inr (snd (inventory s ! nat (k - 1)))"
      using map_of_nth [OF assms(1) j] by (simp add: dict_get_def nm)
    show ?thesis
    proof (cases rest)
      case Nil
      then show ?thesis
        using k dg nd by (simp add: order_iter_def input_def print_def c Let_def)
    next
      case (Cons l rest')
      show ?thesis
        using k dg nd get dict_set_nth [OF assms(1) j] j assms(2)
        by (simp add: order_iter_def input_def print_def c Cons Let_def add_stock_def
            add_line_def mul_float_int_def nm split: option.splits)
    qed
  qed
qed


declare picks.simps(2) [simp del]

lemma add_stock_keys [simp]: "map fst (add_stock d p) = map fst d"
proof -
  obtain i q qf where p: "p = (i, q, qf)" by (cases p)
  show ?thesis
  proof (cases "i < length d")
    case True
    then have "(map fst d)[i := fst (d ! i)] = map fst d"
      by (metis list_update_id nth_map)
    then show ?thesis by (simp add: p add_stock_def map_update)
  next
    case False
    then show ?thesis by (simp add: p add_stock_def list_update_beyond)
  qed
qed

lemma add_stock_length [simp]: "length (add_stock d p) = length d"
  by (cases p) (simp add: add_stock_def)

lemma add_line_add_stock [simp]: "add_line ar (add_stock d p) ord p' = add_line ar d ord p'"
proof -
  obtain i q qf where p: "p = (i, q, qf)" by (cases p)
  obtain j q' qf' where p': "p' = (j, q', qf')" by (cases p')
  show ?thesis
  proof (cases "i = j \<and> i < length d")
    case True
    then show ?thesis by (simp add: p p' add_stock_def add_line_def)
  next
    case False
    then have "add_stock d p ! j = d ! j"
      by (cases "i = j") (auto simp: p add_stock_def list_update_beyond)
    then show ?thesis by (simp add: p' add_line_def)
  qed
qed

lemma fold_add_line_add_stock [simp]:
  "fold (\<lambda>p' ord. add_line ar (add_stock d p) ord p') ps ord = fold (\<lambda>p' ord. add_line ar d ord p') ps ord"
  by simp

lemma order_loop_picks:
  "distinct (map fst (inventory s)) \<Longrightarrow> items = map fst (inventory s) \<Longrightarrow>
   inventory (snd (snd (order_loop ar items order s))) =
     fold (\<lambda>p d. add_stock d p) (picks ar (length items) (stdin s)) (inventory s) \<and>
   fst (snd (order_loop ar items order s)) =
     fold (\<lambda>p ord. add_line ar (inventory s) ord p) (picks ar (length items) (stdin s)) order"
proof (induction ar items order s rule: order_loop_induct)
  case (iter ar items order s)
  obtain f order' s' where it: "order_iter ar items order s = (f, order', s')"
    by (cases "order_iter ar items order s")
  note pk = order_iter_picks [OF iter.prems, where order = order and ar = ar, unfolded it]
  show ?case
  proof (cases f)
    case Continue
    note lp = order_loop_Continue [OF it [unfolded Continue]]
    from pk Continue consider
      (skip) "picks ar (length items) (stdin s) = picks ar (length items) (stdin s')"
        "inventory s' = inventory s" "order' = order"
      | (pick) p where "picks ar (length items) (stdin s) = p # picks ar (length items) (stdin s')"
        "inventory s' = add_stock (inventory s) p" "order' = add_line ar (inventory s) order p"
      by auto
    then show ?thesis
    proof cases
      case skip
      then show ?thesis
        unfolding lp using iter.IH [of order' s'] it Continue iter.prems by simp
    next
      case pick
      have "distinct (map fst (inventory s'))" "items = map fst (inventory s')"
        using pick iter.prems by simp_all
      then show ?thesis
        unfolding lp using iter.IH [of order' s'] it Continue pick by simp
    qed
  next
    case Break
    then show ?thesis
      unfolding order_loop_Break [OF it [unfolded Break]] using pk by simp
  next
    case (Raise e)
    then show ?thesis
      unfolding order_loop_Raise [OF it [unfolded Raise]] using pk by simp
  qed
qed






lemma fold_add_stock_keys [simp]:
  "map fst (fold (\<lambda>p d. add_stock d p) ps d) = map fst d"
  by (induction ps arbitrary: d) simp_all

lemma map_of_dict_set: "map_of (dict_set d k v) = (map_of d)(k \<mapsto> v)"
  by (induction d k v rule: dict_set.induct) auto

lemma keys_dict_set:
  "map fst (dict_set d k v) = (if k \<in> fst ` set d then map fst d else map fst d @ [k])"
  by (induction d k v rule: dict_set.induct) auto

lemma distinct_dict_set: "distinct (map fst d) \<Longrightarrow> distinct (map fst (dict_set d k v))"
  by (simp add: keys_dict_set)







lemma order_iter_pick:
  assumes "stdin s = c # l # rest"
    and "isdigit (lower (strip c))"
    and "py_int (lower (strip c)) = Some k"
    and "1 \<le> k" and "k \<le> int (length items)"
  shows "order_iter ar items order s =
    (let name = items ! nat (k - 1);
         s2 = s\<lparr>stdin := rest, stdout := stdout s @ [ChoicePrompt, QtyPrompt (title name)]\<rparr>
     in case py_int l of
          None \<Rightarrow> (Continue, order, print InvalidQuantity s2)
        | Some q \<Rightarrow>
            if q \<le> 0 then (Continue, order, print MustBePositive s2)
            else (case dict_get (inventory s) name of
               Inl e \<Rightarrow> (Raise e, order, s2)
             | Inr it \<Rightarrow>
                 (case int_to_float ar q of
                    None \<Rightarrow> (Raise OverflowError, order, s2)
                  | Some qf \<Rightarrow>
                      (Continue,
                       dict_set order name
                         \<lparr>qty = q, unit_price = price it, subtotal = fmul ar (price it) qf\<rparr>,
                       s2\<lparr>inventory := dict_set (inventory s) name
                                           (it\<lparr>quantity := quantity it + q\<rparr>)\<rparr>))))"
proof -
  have nd: "lower (strip c) \<noteq> ''done''"
    using assms(2) not_isdigit_done by auto
  show ?thesis
    using assms nd
    by (simp add: order_iter_def input_def print_def Let_def mul_float_int_def
        split: option.splits sum.splits)
qed

text \<open>
  C6: when a line selects an item and the next line is no integer, or an integer that is
  not positive, the pass of the loop leaves the order record, the table and the file as
  they were: it consumes the two lines, prints the two prompts and the complaint, and the
  loop goes on from the next prompt. What counts as an integer is what \<open>int\<close> accepts
  (\<^const>\<open>py_int\<close>): the digit \<open>3\<close> after the character 28 is none, and the
  complaint for it is the one for a line that is no integer.
\<close>

theorem order_iter_bad_quantity:
  assumes "stdin s = c # l # rest"
    and "isdigit (lower (strip c))"
    and "py_int (lower (strip c)) = Some k"
    and "1 \<le> k" and "k \<le> int (length items)"
    and "py_int l = None \<or> (\<exists>q. py_int l = Some q \<and> q \<le> 0)"
  shows "(let s' = s\<lparr>stdin := rest,
                     stdout := stdout s @
                       [ChoicePrompt, QtyPrompt (title (items ! nat (k - 1))),
                        if py_int l = None then InvalidQuantity else MustBePositive]\<rparr>
          in order_iter ar items order s = (Continue, order, s') \<and>
             inventory s' = inventory s \<and> disk s' = disk s \<and>
             order_loop ar items order s = order_loop ar items order s')"
proof -
  let ?s' = "s\<lparr>stdin := rest,
                     stdout := stdout s @
                       [ChoicePrompt, QtyPrompt (title (items ! nat (k - 1))),
                        if py_int l = None then InvalidQuantity else MustBePositive]\<rparr>"
  have it: "order_iter ar items order s = (Continue, order, ?s')"
    using assms(6) order_iter_pick [OF assms(1-5), of ar order]
    by (auto simp: Let_def print_def)
  show ?thesis
    unfolding Let_def using it order_loop_Continue [OF it] by simp
qed

theorem order_iter_bad_quantity_witness:
  "(let s = \<lparr>inventory = [(''patty'', example_item 10 20 50 5)], disk = None,
              stdin = [''1'', CHR 0x1C # ''3'', ''1'', '' 0'', ''done''], stdout = []\<rparr>;
        s1 = s\<lparr>stdin := [''1'', '' 0'', ''done''],
               stdout := [ChoicePrompt, QtyPrompt ''Patty'', InvalidQuantity]\<rparr>;
        s2 = s\<lparr>stdin := [''done''],
               stdout := [ChoicePrompt, QtyPrompt ''Patty'', InvalidQuantity,
                          ChoicePrompt, QtyPrompt ''Patty'', MustBePositive]\<rparr>
    in order_iter binary64 [''patty''] [] s = (Continue, [], s1) \<and>
       order_iter binary64 [''patty''] [] s1 = (Continue, [], s2) \<and>
       order_loop binary64 [''patty''] [] s = order_loop binary64 [''patty''] [] s2)"
proof -
  let ?s = "\<lparr>inventory = [(''patty'', example_item 10 20 50 5)], disk = None,
              stdin = [''1'', CHR 0x1C # ''3'', ''1'', '' 0'', ''done''], stdout = []\<rparr>"
  let ?s1 = "?s\<lparr>stdin := [''1'', '' 0'', ''done''],
               stdout := [ChoicePrompt, QtyPrompt ''Patty'', InvalidQuantity]\<rparr>"
  have c: "lower (strip ''1'') = ''1''" "isdigit ''1''" "py_int ''1'' = Some 1"
    by code_simp+
  have q: "py_int (CHR 0x1C # ''3'') = None" "py_int '' 0'' = Some 0"
    "title ''patty'' = ''Patty''"
    by code_simp+
  have a: "stdin ?s = ''1'' # (CHR 0x1C # ''3'') # [''1'', '' 0'', ''done'']"
    "isdigit (lower (strip ''1''))" "py_int (lower (strip ''1'')) = Some 1"
    "(1::int) \<le> 1" "1 \<le> int (length [''patty''])"
    "py_int (CHR 0x1C # ''3'') = None \<or> (\<exists>q. py_int (CHR 0x1C # ''3'') = Some q \<and> q \<le> 0)"
    by (simp_all add: c q)
  have b: "stdin ?s1 = ''1'' # '' 0'' # [''done'']"
    "py_int '' 0'' = None \<or> (\<exists>q. py_int '' 0'' = Some q \<and> q \<le> 0)"
    by (simp_all add: q)
  show ?thesis
    using order_iter_bad_quantity [OF a, of binary64 "[]"]
      order_iter_bad_quantity [OF b(1) a(2-5) b(2), of binary64 "[]"]
    by (simp add: Let_def q)
qed

lemma inventory_print [simp]: "inventory (print x s) = inventory s"
  by (simp add: print_def)

lemma inventory_show_rows [simp]: "inventory (show_rows i tbl s) = inventory s"
  by (induction i tbl s rule: show_rows.induct) simp_all

lemma inventory_show_inventory [simp]: "inventory (show_inventory s) = inventory s"
  by (simp add: show_inventory_def)

lemma inventory_summary_lines [simp]: "inventory (summary_lines order s) = inventory s"
  by (induction order s rule: summary_lines.induct) simp_all

lemma inventory_order_summary [simp]: "inventory (order_summary ar order s) = inventory s"
  by (simp add: order_summary_def Let_def)

lemma summary_lines_out:
  "summary_lines order s =
     s\<lparr>stdout := stdout s @
        map (\<lambda>(name, line). SummaryLine (title name) (qty line) (unit_price line) (subtotal line))
          order\<rparr>"
  by (induction order s rule: summary_lines.induct) (simp_all add: print_def)

lemma order_summary_out:
  "order \<noteq> [] \<Longrightarrow>
   order_summary ar order s =
     s\<lparr>stdout := stdout s @ [SummaryHeader, SummaryColumns] @
        map (\<lambda>(name, line). SummaryLine (title name) (qty line) (unit_price line) (subtotal line))
          order @
        [SummaryRule,
         Subtotal (fsum ar (map (\<lambda>line. subtotal (snd line)) order)),
         GST (fmul ar (fsum ar (map (\<lambda>line. subtotal (snd line)) order)) (GST_RATE ar)),
         GrandTotal
           (fadd ar (fsum ar (map (\<lambda>line. subtotal (snd line)) order))
              (fmul ar (fsum ar (map (\<lambda>line. subtotal (snd line)) order)) (GST_RATE ar)))]\<rparr>"
  by (simp add: order_summary_def Let_def summary_lines_out print_def)

lemma order_summary_Nil: "order_summary ar [] s = s"
  by (simp add: order_summary_def)

lemma dict_set_not_Nil: "dict_set d k v \<noteq> []"
  by (cases d) (auto split: if_splits)

lemma add_line_not_Nil: "add_line ar d ord p \<noteq> []"
  by (cases p) (simp add: add_line_def dict_set_not_Nil)

lemma fold_add_line_not_Nil':
  "ord \<noteq> [] \<Longrightarrow> fold (\<lambda>p ord. add_line ar d ord p) ps ord \<noteq> []"
  by (induction ps arbitrary: ord) (simp_all add: add_line_not_Nil)

lemma fold_add_line_not_Nil:
  "fold (\<lambda>p ord. add_line ar d ord p) (p # ps) ord \<noteq> []"
  by (simp add: fold_add_line_not_Nil' add_line_not_Nil)

lemma picks_pick:
  assumes "isdigit (lower (strip c))" and "py_int (lower (strip c)) = Some k"
    and "1 \<le> k" and "k \<le> int n" and "py_int l = Some q" and "0 < q"
  shows "picks ar n (c # l # rest) =
    (case int_to_float ar q of
       None \<Rightarrow> []
     | Some qf \<Rightarrow> (nat (k - 1), q, qf) # picks ar n rest)"
proof -
  have nd: "lower (strip c) \<noteq> ''done''"
    using assms(1) not_isdigit_done by auto
  show ?thesis
    unfolding picks.simps(2) [of ar n c "l # rest"] using assms nd by (simp add: Let_def)
qed

lemma place_order_out:
  assumes "order_loop ar (map fst (inventory s)) [] (print OrderHeader (show_inventory s)) =
             (r, lines, t)"
  shows "place_order ar s =
    (r, if r = None \<and> lines \<noteq> []
        then t\<lparr>stdout := stdout t @ [SummaryHeader, SummaryColumns] @
               map (\<lambda>(name, line).
                      SummaryLine (title name) (qty line) (unit_price line) (subtotal line))
                 lines @
               [SummaryRule,
                Subtotal (fsum ar (map (\<lambda>line. subtotal (snd line)) lines)),
                GST (fmul ar (fsum ar (map (\<lambda>line. subtotal (snd line)) lines)) (GST_RATE ar)),
                GrandTotal
                  (fadd ar (fsum ar (map (\<lambda>line. subtotal (snd line)) lines))
                     (fmul ar (fsum ar (map (\<lambda>line. subtotal (snd line)) lines))
                        (GST_RATE ar)))]\<rparr>
        else t)"
proof -
  have i: "map fst (inventory (print OrderHeader (show_inventory s))) = map fst (inventory s)"
    by simp
  show ?thesis
  proof (cases r)
    case None
    show ?thesis
    proof (cases "lines = []")
      case True
      then show ?thesis
        unfolding place_order_def Let_def i assms using None by (simp add: order_summary_Nil)
    next
      case False
      then show ?thesis
        unfolding place_order_def Let_def i assms using None
        by (simp add: order_summary_out)
    qed
  next
    case (Some e)
    then show ?thesis
      unfolding place_order_def Let_def i assms by simp
  qed
qed

text \<open>
  C1 (amended): in a table with one entry per name, let the state \<open>s\<close> stand at a prompt
  of the loop, the first line select item \<open>x\<close> (the \<open>k\<close>-th, with record \<open>it\<close>) and
  the next line be an integer \<open>q > 0\<close>.

  When \<open>q\<close> converts to the float \<open>qf\<close>, the pass of the loop goes on to the next
  prompt, the table is the old one with the quantity of \<open>x\<close> raised by exactly \<open>q\<close> and
  nothing else changed, and the order record holds for \<open>x\<close> the line with quantity
  \<open>q\<close>, unit price the box price of \<open>x\<close> and subtotal the float product of the box
  price and \<open>qf\<close>. When \<open>q\<close> is too large to convert, the pass ends the loop with
  OverflowError, the order record and the table as they were.

  The run of \<open>place_order\<close> from \<open>s\<close> ends as its loop ends. The order record of the
  loop holds the lines of the picks of the input, a later line of a name in place of the
  earlier one, and at least one line when \<open>q\<close> converts. When the loop ends at \<open>done\<close>
  with a non-empty order record, \<open>place_order\<close> prints after the output of the loop
  one line per entry of the record, then the sum of the subtotals, the product of that sum
  and the rate 0.05 as GST, and as the total the sum plus that product, each as the floats
  compute it; otherwise it prints nothing after the output of the loop. The values of the
  three last lines are those that the program formats to two decimals.
\<close>

theorem place_order_pick_and_invoice:
  assumes "distinct (map fst (inventory s))" and "items = map fst (inventory s)"
    and "stdin s = c # l # rest"
    and "isdigit (lower (strip c))" and "py_int (lower (strip c)) = Some k"
    and "1 \<le> k" and "k \<le> int (length items)"
    and "py_int l = Some q" and "0 < q"
    and "inventory s ! nat (k - 1) = (x, it)"
  shows "(case int_to_float ar q of
            None \<Rightarrow>
              order_iter ar items order s =
                (Raise OverflowError, order,
                 s\<lparr>stdin := rest, stdout := stdout s @ [ChoicePrompt, QtyPrompt (title x)]\<rparr>)
          | Some qf \<Rightarrow>
              (case order_iter ar items order s of (f, order', s') \<Rightarrow>
                 f = Continue \<and>
                 inventory s' =
                   (inventory s)[nat (k - 1) := (x, it\<lparr>quantity := quantity it + q\<rparr>)] \<and>
                 map_of (inventory s') x = Some (it\<lparr>quantity := quantity it + q\<rparr>) \<and>
                 map_of order' x =
                   Some \<lparr>qty = q, unit_price = price it, subtotal = fmul ar (price it) qf\<rparr>)) \<and>
         (case order_loop ar items [] (print OrderHeader (show_inventory s)) of
            (r, lines, t) \<Rightarrow>
              (let order_total = fsum ar (map (\<lambda>line. subtotal (snd line)) lines)
               in lines = fold (\<lambda>p ord. add_line ar (inventory s) ord p)
                            (picks ar (length items) (stdin s)) [] \<and>
                  (int_to_float ar q = None \<or> lines \<noteq> []) \<and>
                  place_order ar s =
                    (r, if r = None \<and> lines \<noteq> []
                        then t\<lparr>stdout := stdout t @ [SummaryHeader, SummaryColumns] @
                               map (\<lambda>(name, line).
                                      SummaryLine (title name) (qty line) (unit_price line)
                                        (subtotal line)) lines @
                               [SummaryRule,
                                Subtotal order_total,
                                GST (fmul ar order_total (GST_RATE ar)),
                                GrandTotal
                                  (fadd ar order_total
                                     (fmul ar order_total (GST_RATE ar)))]\<rparr>
                        else t)))"
proof -
  have j: "nat (k - 1) < length (inventory s)"
    using assms(2,6,7) by auto
  have nm: "items ! nat (k - 1) = x"
    using j assms(2,10) by simp
  have x: "x = fst (inventory s ! nat (k - 1))" and it: "it = snd (inventory s ! nat (k - 1))"
    using assms(10) by simp_all
  have get: "dict_get (inventory s) x = Inr it"
    using map_of_nth [OF assms(1) j] by (simp add: dict_get_def x it)
  have upd: "dict_set (inventory s) x (it\<lparr>quantity := quantity it + q\<rparr>) =
      (inventory s)[nat (k - 1) := (x, it\<lparr>quantity := quantity it + q\<rparr>)]"
    using dict_set_nth [OF assms(1) j] by (simp add: x)
  have look: "map_of ((inventory s)[nat (k - 1) := (x, it\<lparr>quantity := quantity it + q\<rparr>)]) x =
      Some (it\<lparr>quantity := quantity it + q\<rparr>)"
    unfolding upd [symmetric] by (simp add: map_of_dict_set)
  have pass: "order_iter ar items order s =
      (case int_to_float ar q of
         None \<Rightarrow>
           (Raise OverflowError, order,
            s\<lparr>stdin := rest, stdout := stdout s @ [ChoicePrompt, QtyPrompt (title x)]\<rparr>)
       | Some qf \<Rightarrow>
           (Continue,
            dict_set order x \<lparr>qty = q, unit_price = price it, subtotal = fmul ar (price it) qf\<rparr>,
            s\<lparr>stdin := rest, stdout := stdout s @ [ChoicePrompt, QtyPrompt (title x)],
              inventory := (inventory s)[nat (k - 1) := (x, it\<lparr>quantity := quantity it + q\<rparr>)]\<rparr>))"
    using order_iter_pick [OF assms(3-7), of ar order] assms(8,9) get upd
    by (simp add: Let_def nm split: option.splits)
  have first: "(case int_to_float ar q of
            None \<Rightarrow>
              order_iter ar items order s =
                (Raise OverflowError, order,
                 s\<lparr>stdin := rest, stdout := stdout s @ [ChoicePrompt, QtyPrompt (title x)]\<rparr>)
          | Some qf \<Rightarrow>
              (case order_iter ar items order s of (f, order', s') \<Rightarrow>
                 f = Continue \<and>
                 inventory s' =
                   (inventory s)[nat (k - 1) := (x, it\<lparr>quantity := quantity it + q\<rparr>)] \<and>
                 map_of (inventory s') x = Some (it\<lparr>quantity := quantity it + q\<rparr>) \<and>
                 map_of order' x =
                   Some \<lparr>qty = q, unit_price = price it, subtotal = fmul ar (price it) qf\<rparr>))"
    unfolding pass using look by (simp add: map_of_dict_set split: option.splits)
  let ?start = "print OrderHeader (show_inventory s)"
  obtain r lines t where ol: "order_loop ar items [] ?start = (r, lines, t)"
    by (cases "order_loop ar items [] ?start")
  have d0: "distinct (map fst (inventory ?start))" and i0: "items = map fst (inventory ?start)"
    using assms(1,2) by simp_all
  have lines: "lines = fold (\<lambda>p ord. add_line ar (inventory s) ord p)
      (picks ar (length items) (stdin s)) []"
    using order_loop_picks [OF d0 i0, of ar "[]"] ol by simp
  have some: "int_to_float ar q = None \<or> lines \<noteq> []"
  proof (cases "int_to_float ar q")
    case None
    then show ?thesis by simp
  next
    case (Some qf)
    have "picks ar (length items) (stdin s) =
        (nat (k - 1), q, qf) # picks ar (length items) rest"
      unfolding assms(3) using picks_pick [OF assms(4-9), of ar rest] Some by simp
    then show ?thesis
      unfolding lines using fold_add_line_not_Nil by metis
  qed
  note out = place_order_out [OF ol [unfolded assms(2)]]
  show ?thesis
    using first lines some out unfolding ol Let_def by simp
qed

theorem place_order_pick_and_invoice_witness:
  "(let s = \<lparr>inventory = [(''patty'', example_item 10 20 50 5)], disk = None,
              stdin = [''1'', ''3'', ''done''], stdout = []\<rparr>
    in (case order_iter binary64 [''patty''] [] s of (f, order', s') \<Rightarrow>
          f = Continue \<and>
          inventory s' = [(''patty'', example_item 13 20 50 5)] \<and>
          map_of order' ''patty'' = Some \<lparr>qty = 3, unit_price = 20, subtotal = 60\<rparr>) \<and>
       place_order binary64 s =
         (None,
          \<lparr>inventory = [(''patty'', example_item 13 20 50 5)], disk = None, stdin = [],
           stdout = [InventoryHeader, InventoryColumns,
                     InventoryRow 1 ''Patty'' 10 20 (3602879701896397 / 9007199254740992),
                     InventoryFooter, OrderHeader, ChoicePrompt, QtyPrompt ''Patty'', ChoicePrompt,
                     SummaryHeader, SummaryColumns, SummaryLine ''Patty'' 3 20 60, SummaryRule,
                     Subtotal 60, GST 3, GrandTotal 63]\<rparr>))"
proof -
  let ?s = "\<lparr>inventory = [(''patty'', example_item 10 20 50 5)], disk = None,
              stdin = [''1'', ''3'', ''done''], stdout = []\<rparr>"
  let ?line = "\<lparr>qty = 3, unit_price = 20, subtotal = 60 :: rat\<rparr>"
  have c: "lower (strip ''1'') = ''1''" "isdigit ''1''" "py_int ''1'' = Some 1"
    "py_int ''3'' = Some 3" "title ''patty'' = ''Patty''" "lower (strip ''done'') = ''done''"
    by code_simp+
  have f: "int_to_float binary64 3 = Some 3" "fmul binary64 20 3 = 60"
    "fsum binary64 [60] = 60" "fmul binary64 60 (GST_RATE binary64) = 3"
    "fadd binary64 60 3 = 63"
    "per_unit_price (example_item 10 20 50 5) = 3602879701896397 / 9007199254740992"
    by code_simp+
  have a: "distinct (map fst (inventory ?s))" "[''patty''] = map fst (inventory ?s)"
    "stdin ?s = ''1'' # ''3'' # [''done'']"
    "isdigit (lower (strip ''1''))" "py_int (lower (strip ''1'')) = Some 1"
    "(1::int) \<le> 1" "1 \<le> int (length [''patty''])"
    "py_int ''3'' = Some 3" "(0::int) < 3"
    "inventory ?s ! nat (1 - 1) = (''patty'', example_item 10 20 50 5)"
    by (simp_all add: c)
  note inst = place_order_pick_and_invoice [OF a, of binary64 "[]"]
  let ?start = "print OrderHeader (show_inventory ?s)"
  let ?mid = "?start\<lparr>stdin := [''done''],
                stdout := stdout ?start @ [ChoicePrompt, QtyPrompt ''Patty''],
                inventory := [(''patty'', example_item 13 20 50 5)]\<rparr>"
  have i1: "order_iter binary64 [''patty''] [] ?start = (Continue, [(''patty'', ?line)], ?mid)"
    by (simp add: order_iter_def input_def print_def show_inventory_def c f Let_def
        dict_get_def mul_float_int_def example_item_def)
  have i2: "order_iter binary64 [''patty''] [(''patty'', ?line)] ?mid =
      (Break, [(''patty'', ?line)], print ChoicePrompt (?mid\<lparr>stdin := []\<rparr>))"
    by (simp add: order_iter_def input_def print_def c Let_def)
  have lp: "order_loop binary64 [''patty''] [] ?start =
      (None, [(''patty'', ?line)], print ChoicePrompt (?mid\<lparr>stdin := []\<rparr>))"
    using order_loop_Continue [OF i1] order_loop_Break [OF i2] by simp
  have sh: "stdout ?start =
      [InventoryHeader, InventoryColumns,
       InventoryRow 1 ''Patty'' 10 20 (3602879701896397 / 9007199254740992),
       InventoryFooter, OrderHeader]"
    using f(6) by (simp add: print_def show_inventory_def c example_item_def)
  show ?thesis
    unfolding Let_def using inst [unfolded lp f(1)] sh
    by (simp add: f(2-5) c print_def show_inventory_def example_item_def split: prod.splits)
qed

text \<open>
  Against C1 as it was stated. A box at 1.50 ordered once: the sum of the subtotals is
  1.5, for which the program computes the total \<open>1.5 + 1.5 * 0.05\<close>, the double just
  below 1.575, and prints it as 1.57; the sum times 1.05 is 1.575 in exact arithmetic
  and the double just above it in floats, and to two decimals 1.58 in both. And a
  quantity of \<open>10^400\<close> boxes, a positive integer after a valid item number: the product
  with the box price raises OverflowError, which ends \<open>place_order\<close> with the table
  as it was and no invoice.
\<close>

theorem place_order_total_not_product:
  "(let s = \<lparr>inventory = [(''fries'', example_item 10 (3 / 2) 50 5)], disk = None,
              stdin = [''1'', ''1'', ''done''], stdout = []\<rparr>
    in place_order binary64 s =
         (None,
          \<lparr>inventory = [(''fries'', example_item 11 (3 / 2) 50 5)], disk = None, stdin = [],
           stdout = [InventoryHeader, InventoryColumns,
                     InventoryRow 1 ''Fries'' 10 (3 / 2) (1080863910568919 / 36028797018963968),
                     InventoryFooter, OrderHeader, ChoicePrompt, QtyPrompt ''Fries'', ChoicePrompt,
                     SummaryHeader, SummaryColumns, SummaryLine ''Fries'' 1 (3 / 2) (3 / 2),
                     SummaryRule,
                     Subtotal (3 / 2),
                     GST (1351079888211149 / 18014398509481984),
                     GrandTotal (7093169413108531 / 4503599627370496)]\<rparr>)) \<and>
   two_decimals (7093169413108531 / 4503599627370496) = 157 \<and>
   two_decimals (3 / 2 * (105 / 100)) = 158 \<and>
   fmul binary64 (3 / 2) (float_lit binary64 (105 / 100)) = 1773292353277133 / 1125899906842624 \<and>
   two_decimals (1773292353277133 / 1125899906842624) = 158 \<and>
   (let s = \<lparr>inventory = [(''fries'', example_item 10 (3 / 2) 50 5)], disk = None,
              stdin = [''1'', CHR ''1'' # replicate 400 (CHR ''0''), ''done''], stdout = []\<rparr>
    in py_int (CHR ''1'' # replicate 400 (CHR ''0'')) = Some (10 ^ 400) \<and>
       place_order binary64 s =
         (Some OverflowError,
          \<lparr>inventory = [(''fries'', example_item 10 (3 / 2) 50 5)], disk = None,
           stdin = [''done''],
           stdout = [InventoryHeader, InventoryColumns,
                     InventoryRow 1 ''Fries'' 10 (3 / 2) (1080863910568919 / 36028797018963968),
                     InventoryFooter, OrderHeader, ChoicePrompt, QtyPrompt ''Fries'']\<rparr>))"
proof -
  let ?s = "\<lparr>inventory = [(''fries'', example_item 10 (3 / 2) 50 5)], disk = None,
              stdin = [''1'', ''1'', ''done''], stdout = []\<rparr>"
  let ?big = "CHR ''1'' # replicate 400 (CHR ''0'')"
  let ?u = "\<lparr>inventory = [(''fries'', example_item 10 (3 / 2) 50 5)], disk = None,
              stdin = [''1'', ?big, ''done''], stdout = []\<rparr>"
  let ?line = "\<lparr>qty = 1, unit_price = 3 / 2, subtotal = 3 / 2 :: rat\<rparr>"
  have c: "lower (strip ''1'') = ''1''" "isdigit ''1''" "py_int ''1'' = Some 1"
    "title ''fries'' = ''Fries''" "lower (strip ''done'') = ''done''"
    by code_simp+
  have big: "py_int ?big = Some (10 ^ 400)"
    by (rule py_int_one_zeros)
  have f: "int_to_float binary64 1 = Some 1" "fmul binary64 (3 / 2) 1 = 3 / 2"
    "fsum binary64 [3 / 2] = 3 / 2"
    "fmul binary64 (3 / 2) (GST_RATE binary64) = 1351079888211149 / 18014398509481984"
    "fadd binary64 (3 / 2) (1351079888211149 / 18014398509481984) =
       7093169413108531 / 4503599627370496"
    "per_unit_price (example_item 10 (3 / 2) 50 5) = 1080863910568919 / 36028797018963968"
    "int_to_float binary64 (10 ^ 400) = None"
    by code_simp+
  have t: "two_decimals (7093169413108531 / 4503599627370496) = 157"
    "two_decimals (3 / 2 * (105 / 100)) = 158"
    "fmul binary64 (3 / 2) (float_lit binary64 (105 / 100)) = 1773292353277133 / 1125899906842624"
    "two_decimals (1773292353277133 / 1125899906842624) = 158"
    by code_simp+
  let ?start = "print OrderHeader (show_inventory ?s)"
  let ?mid = "?start\<lparr>stdin := [''done''],
                stdout := stdout ?start @ [ChoicePrompt, QtyPrompt ''Fries''],
                inventory := [(''fries'', example_item 11 (3 / 2) 50 5)]\<rparr>"
  have i1: "order_iter binary64 [''fries''] [] ?start = (Continue, [(''fries'', ?line)], ?mid)"
    by (simp add: order_iter_def input_def print_def show_inventory_def c f Let_def
        dict_get_def mul_float_int_def example_item_def)
  have i2: "order_iter binary64 [''fries''] [(''fries'', ?line)] ?mid =
      (Break, [(''fries'', ?line)], print ChoicePrompt (?mid\<lparr>stdin := []\<rparr>))"
    by (simp add: order_iter_def input_def print_def c Let_def)
  have lp: "order_loop binary64 (map fst (inventory ?s)) [] ?start =
      (None, [(''fries'', ?line)], print ChoicePrompt (?mid\<lparr>stdin := []\<rparr>))"
    using order_loop_Continue [OF i1] order_loop_Break [OF i2] by simp
  have sh: "stdout ?start =
      [InventoryHeader, InventoryColumns,
       InventoryRow 1 ''Fries'' 10 (3 / 2) (1080863910568919 / 36028797018963968),
       InventoryFooter, OrderHeader]"
    using f(6) by (simp add: print_def show_inventory_def c example_item_def)
  have one: "place_order binary64 ?s =
         (None,
          \<lparr>inventory = [(''fries'', example_item 11 (3 / 2) 50 5)], disk = None, stdin = [],
           stdout = [InventoryHeader, InventoryColumns,
                     InventoryRow 1 ''Fries'' 10 (3 / 2) (1080863910568919 / 36028797018963968),
                     InventoryFooter, OrderHeader, ChoicePrompt, QtyPrompt ''Fries'', ChoicePrompt,
                     SummaryHeader, SummaryColumns, SummaryLine ''Fries'' 1 (3 / 2) (3 / 2),
                     SummaryRule,
                     Subtotal (3 / 2),
                     GST (1351079888211149 / 18014398509481984),
                     GrandTotal (7093169413108531 / 4503599627370496)]\<rparr>)"
    unfolding place_order_out [OF lp] using sh
    by (simp add: f(2-5) c print_def show_inventory_def example_item_def)
  let ?ustart = "print OrderHeader (show_inventory ?u)"
  have j1: "order_iter binary64 [''fries''] [] ?ustart =
      (Raise OverflowError, [],
       ?ustart\<lparr>stdin := [''done''],
                stdout := stdout ?ustart @ [ChoicePrompt, QtyPrompt ''Fries'']\<rparr>)"
    using big f(7)
    by (simp add: order_iter_def input_def print_def show_inventory_def c Let_def
        dict_get_def mul_float_int_def example_item_def)
  have ulp: "order_loop binary64 (map fst (inventory ?u)) [] ?ustart =
      (Some OverflowError, [],
       ?ustart\<lparr>stdin := [''done''],
                stdout := stdout ?ustart @ [ChoicePrompt, QtyPrompt ''Fries'']\<rparr>)"
    using order_loop_Raise [OF j1] by simp
  have ush: "stdout ?ustart =
      [InventoryHeader, InventoryColumns,
       InventoryRow 1 ''Fries'' 10 (3 / 2) (1080863910568919 / 36028797018963968),
       InventoryFooter, OrderHeader]"
    using f(6) by (simp add: print_def show_inventory_def c example_item_def)
  have two: "place_order binary64 ?u =
         (Some OverflowError,
          \<lparr>inventory = [(''fries'', example_item 10 (3 / 2) 50 5)], disk = None,
           stdin = [''done''],
           stdout = [InventoryHeader, InventoryColumns,
                     InventoryRow 1 ''Fries'' 10 (3 / 2) (1080863910568919 / 36028797018963968),
                     InventoryFooter, OrderHeader, ChoicePrompt, QtyPrompt ''Fries'']\<rparr>)"
    unfolding place_order_out [OF ulp] using ush
    by (simp add: print_def show_inventory_def)
  show ?thesis
    unfolding Let_def using one two big t by simp
qed




section \<open>The store loader and writer\<close>

lemma lower_char_idem: "lower_char (lower_char c) = lower_char c"
proof (cases "is_upper c")
  case True
  then have "\<not> is_upper (char_of ((of_char c :: nat) + 32))"
    by (simp add: is_upper_def)
  then show ?thesis using True by (simp add: lower_char_def)
next
  case False
  then show ?thesis by (simp add: lower_char_def)
qed

lemma lower_idem: "lower (lower s) = lower s"
  by (simp add: lower_def lower_char_idem)

lemma load_row_Inr:
  assumes "load_row pf ar r = Inr (name, it)"
  shows "\<exists>n q p u c. r ''name'' = Some (Some n) \<and> name = lower n \<and>
     r ''quantity'' = Some (Some q) \<and> r ''price'' = Some (Some p) \<and>
     r ''units_per_box'' = Some (Some u) \<and> r ''critical_level'' = Some (Some c) \<and>
     py_int q = Some (quantity it) \<and> pf p = Some (price it) \<and>
     py_int u = Some (units_per_box it) \<and> py_int c = Some (critical_level it) \<and>
     units_per_box it \<noteq> 0 \<and>
     div_float_int ar (price it) (units_per_box it) = Inr (per_unit_price it)"
  using assms
  by (auto simp: load_row_def bind_err_def cell_def lower_cell_def int_cell_def float_cell_def
      div_float_int_def split: option.splits sum.splits if_splits)

lemma load_row_derived: "load_row pf ar r = Inr e \<Longrightarrow> derived ar e"
  using load_row_Inr [of pf ar r "fst e" "snd e"]
  by (auto simp: derived_def lower_idem split: prod.splits)

lemma load_row_save_row:
  assumes "derived ar (name, it)" and "pf (rp (price it)) = Some (price it)"
  shows "load_row pf ar (save_row rp (name, it)) = Inr (name, it)"
  using assms
  by (simp add: load_row_def save_row_def bind_err_def cell_def lower_cell_def int_cell_def
      float_cell_def py_int_str_int derived_def)

lemma dict_set_fresh: "k \<notin> fst ` set d \<Longrightarrow> dict_set d k v = d @ [(k, v)]"
  by (induction d k v rule: dict_set.induct) auto

lemma load_rows_save_rows:
  "distinct (map fst (pre @ T)) \<Longrightarrow> list_all (derived ar) T \<Longrightarrow>
   list_all (\<lambda>(name, it). pf (rp (price it)) = Some (price it)) T \<Longrightarrow>
   load_rows pf ar pre (map (save_row rp) T) = Inr (pre @ T)"
proof (induction T arbitrary: pre)
  case Nil
  then show ?case by simp
next
  case (Cons e T)
  obtain name it where e: "e = (name, it)" by (cases e)
  have row: "load_row pf ar (save_row rp (name, it)) = Inr (name, it)"
    using Cons.prems(2,3) by (intro load_row_save_row) (simp_all add: e)
  have fresh: "name \<notin> fst ` set pre"
    using Cons.prems(1) by (auto simp: e)
  have "load_rows pf ar (pre @ [(name, it)]) (map (save_row rp) T) = Inr ((pre @ [(name, it)]) @ T)"
    using Cons.prems by (intro Cons.IH) (simp_all add: e)
  then show ?case
    by (simp add: e row dict_set_fresh [OF fresh])
qed


lemma set_dict_set: "set (dict_set d k v) \<subseteq> insert (k, v) (set d)"
  by (induction d k v rule: dict_set.induct) auto

lemma load_rows_entries:
  "map (load_row pf ar) rows = map Inr entries \<Longrightarrow>
   load_rows pf ar tbl rows = Inr (fold (\<lambda>e d. store d e) entries tbl)"
proof (induction rows arbitrary: tbl entries)
  case Nil
  then show ?case by simp
next
  case (Cons r rows)
  then obtain e es where es: "entries = e # es" "load_row pf ar r = Inr e"
    "map (load_row pf ar) rows = map Inr es"
    by (cases entries) auto
  show ?case
    using Cons.IH [OF es(3)] by (simp add: es store_def split: prod.splits)
qed

lemma load_rows_parsed:
  "load_rows pf ar tbl rows = Inr T \<Longrightarrow> \<exists>entries. map (load_row pf ar) rows = map Inr entries"
proof (induction rows arbitrary: tbl)
  case Nil
  then show ?case by simp
next
  case (Cons r rows)
  then obtain e where e: "load_row pf ar r = Inr e"
    by (cases "load_row pf ar r") auto
  with Cons.prems have "load_rows pf ar (store tbl e) rows = Inr T"
    by (simp add: store_def split: prod.splits)
  from Cons.IH [OF this] obtain es where "map (load_row pf ar) rows = map Inr es" ..
  then have "map (load_row pf ar) (r # rows) = map Inr (e # es)"
    by (simp add: e)
  then show ?case by blast
qed

lemma fold_store_distinct:
  "distinct (map fst tbl) \<Longrightarrow> distinct (map fst (fold (\<lambda>e d. store d e) entries tbl))"
  by (induction entries arbitrary: tbl) (auto simp: store_def distinct_dict_set)

lemma keyset_dict_set: "fst ` set (dict_set d k v) = insert k (fst ` set d)"
  using keys_dict_set [of d k v, THEN arg_cong, of set] by (auto split: if_splits)

lemma store_keyset: "fst ` set (store d e) = insert (fst e) (fst ` set d)"
  by (cases e) (simp add: store_def keyset_dict_set)

lemma fold_store_keys:
  "fst ` set (fold (\<lambda>e d. store d e) entries tbl) = fst ` set tbl \<union> fst ` set entries"
  by (induction entries arbitrary: tbl) (simp_all add: store_keyset)

lemma fold_store_all:
  "list_all P tbl \<Longrightarrow> list_all P entries \<Longrightarrow> list_all P (fold (\<lambda>e d. store d e) entries tbl)"
proof (induction entries arbitrary: tbl)
  case Nil
  then show ?case by simp
next
  case (Cons e es)
  obtain k v where e: "e = (k, v)" by (cases e)
  have "list_all P (dict_set tbl k v)"
    using Cons.prems set_dict_set [of tbl k v] by (auto simp: list_all_iff e)
  then show ?case
    using Cons.IH [of "dict_set tbl k v"] Cons.prems by (simp add: e store_def)
qed

lemma store_map_of: "map_of (store d e) = map_of d ++ map_of [e]"
  by (cases e) (simp add: store_def map_of_dict_set)

lemma fold_store_map_of:
  "map_of (fold (\<lambda>e d. store d e) entries tbl) = map_of tbl ++ map_of (rev entries)"
proof (induction entries arbitrary: tbl)
  case Nil
  then show ?case by simp
next
  case (Cons e es)
  have "map_of (fold (\<lambda>e d. store d e) (e # es) tbl) = map_of (store tbl e) ++ map_of (rev es)"
    using Cons.IH [of "store tbl e"] by simp
  also have "\<dots> = map_of tbl ++ (map_of [e] ++ map_of (rev es))"
    unfolding store_map_of by (rule map_add_assoc [symmetric])
  also have "map_of [e] ++ map_of (rev es) = map_of (rev (e # es))"
    by simp
  finally show ?case .
qed

lemma load_rows_derived:
  assumes "load_rows pf ar [] rows = Inr T"
  shows "distinct (map fst T) \<and> list_all (derived ar) T"
proof -
  obtain entries where en: "map (load_row pf ar) rows = map Inr entries"
    using load_rows_parsed [OF assms] ..
  have T: "T = fold (\<lambda>e d. store d e) entries []"
    using load_rows_entries [OF en, of "[]"] assms by simp
  have "list_all (derived ar) entries"
  proof -
    have "\<And>e. e \<in> set entries \<Longrightarrow> derived ar e"
    proof -
      fix e assume "e \<in> set entries"
      then have "Inr e \<in> set (map (load_row pf ar) rows)"
        unfolding en by simp
      then obtain r where "load_row pf ar r = Inr e" by auto
      then show "derived ar e" by (rule load_row_derived)
    qed
    then show ?thesis by (simp add: list_all_iff)
  qed
  then show ?thesis
    unfolding T by (simp add: fold_store_distinct fold_store_all)
qed

lemma load_inventory_derived:
  assumes "load_inventory pf ar s = (Inr T, s')"
  shows "distinct (map fst T) \<and> list_all (derived ar) T"
proof (cases "disk s")
  case None
  then show ?thesis using assms by (simp add: load_inventory_def)
next
  case (Some rows)
  then have "load_rows pf ar [] rows = Inr T"
    using assms by (simp add: load_inventory_def)
  then show ?thesis by (rule load_rows_derived)
qed

text \<open>
  C2: let \<open>T\<close> be the table a load returned (so every row parsed and no box size was
  zero), and let writing a price of \<open>T\<close> and reading it back give the same float. Then
  saving \<open>T\<close> and loading the saved file returns \<open>T\<close> again: the same names in the
  same order, each with the same quantity, price, box size, critical level and per-unit
  price.
\<close>

theorem save_load_round_trip:
  assumes "load_inventory pf ar s = (Inr T, s')"
    and "inventory t = T"
    and "list_all (\<lambda>(name, it). pf (rp (price it)) = Some (price it)) T"
  shows "load_inventory pf ar (save_inventory rp t) = (Inr T, save_inventory rp t)"
proof -
  have "distinct (map fst ([] @ T))" "list_all (derived ar) T"
    using load_inventory_derived [OF assms(1)] by simp_all
  from load_rows_save_rows [OF this assms(3)] show ?thesis
    by (simp add: load_inventory_def save_inventory_def assms(2))
qed

theorem save_load_round_trip_witness:
  "(let s = \<lparr>inventory = [],
              disk = Some [example_row ''Patty'' '' 10'' ''20.00'' ''50'' ''5'',
                           example_row ''bun'' ''-2'' ''8.5'' ''40'' ''+5''],
              stdin = [], stdout = []\<rparr>;
        T = [(''patty'', example_item 10 20 50 5), (''bun'', example_item (- 2) (17 / 2) 40 5)]
    in load_inventory example_float binary64 s = (Inr T, s) \<and>
       disk (save_inventory example_repr (s\<lparr>inventory := T\<rparr>)) =
         Some [example_row ''patty'' ''10'' ''20.0'' ''50'' ''5'',
               example_row ''bun'' ''-2'' ''8.5'' ''40'' ''5''] \<and>
       fst (load_inventory example_float binary64 (save_inventory example_repr (s\<lparr>inventory := T\<rparr>)))
         = Inr T)"
proof -
  let ?s = "\<lparr>inventory = [],
              disk = Some [example_row ''Patty'' '' 10'' ''20.00'' ''50'' ''5'',
                           example_row ''bun'' ''-2'' ''8.5'' ''40'' ''+5''],
              stdin = [], stdout = []\<rparr>"
  let ?T = "[(''patty'', example_item 10 20 50 5), (''bun'', example_item (- 2) (17 / 2) 40 5)]"
  have c: "lower ''Patty'' = ''patty''" "lower ''bun'' = ''bun''"
    "py_int '' 10'' = Some 10" "py_int ''50'' = Some 50" "py_int ''5'' = Some 5"
    "py_int ''-2'' = Some (- 2)" "py_int ''40'' = Some 40" "py_int ''+5'' = Some 5"
    by code_simp+
  have st: "str_int 10 = ''10''" "str_int 50 = ''50''" "str_int 5 = ''5''"
    "str_int (- 2) = ''-2''" "str_int 40 = ''40''"
    by code_simp+
  have d: "div_float_int binary64 20 50 = Inr (per_unit_price (example_item 10 20 50 5))"
    "div_float_int binary64 (17 / 2) 40 = Inr (per_unit_price (example_item (- 2) (17 / 2) 40 5))"
    by code_simp+
  have ld: "load_inventory example_float binary64 ?s = (Inr ?T, ?s)"
    by (simp add: load_inventory_def load_row_def example_row_def bind_err_def cell_def
        lower_cell_def int_cell_def float_cell_def example_float_def example_item_def c d)
  have sv: "disk (save_inventory example_repr (?s\<lparr>inventory := ?T\<rparr>)) =
         Some [example_row ''patty'' ''10'' ''20.0'' ''50'' ''5'',
               example_row ''bun'' ''-2'' ''8.5'' ''40'' ''5'']"
    by (simp add: save_inventory_def save_row_def example_row_def example_repr_def
        example_item_def st)
  have rt: "list_all (\<lambda>(name, it). example_float (example_repr (price it)) = Some (price it)) ?T"
    by (simp add: example_float_def example_repr_def example_item_def)
  have "inventory (?s\<lparr>inventory := ?T\<rparr>) = ?T" by simp
  from save_load_round_trip [OF ld this rt] ld sv show ?thesis
    by (simp add: Let_def)
qed










section \<open>Rows with equal names\<close>

lemma load_rows_names:
  "map (load_row pf ar) rows = map Inr entries \<Longrightarrow>
   list_all2 (\<lambda>r e. \<exists>n. r ''name'' = Some (Some n) \<and> fst e = lower n) rows entries"
proof (induction rows arbitrary: entries)
  case Nil
  then show ?case by simp
next
  case (Cons r rows)
  then obtain e es where es: "entries = e # es" "load_row pf ar r = Inr e"
    "map (load_row pf ar) rows = map Inr es"
    by (cases entries) auto
  have "\<exists>n. r ''name'' = Some (Some n) \<and> fst e = lower n"
    using load_row_Inr [of pf ar r "fst e" "snd e"] es(2) by auto
  then show ?case
    using Cons.IH [OF es(3)] by (simp add: es)
qed

text \<open>
  C10, as amended: let every row of the file parse, to the entries (lower-cased name,
  item), and let \<open>T\<close> be the loaded table. Then \<open>T\<close> has one entry per name, its
  names are exactly the lower-cased row names, and each name holds the item of the last
  row with that name. Saving \<open>T\<close> and loading it again gives \<open>T\<close> whether or not
  names collided (for prices that the float codec reads back). What a collision costs
  is rows: the saved file has as many rows as the input exactly when no two lower-cased
  names are equal, and fewer otherwise.
\<close>

theorem load_inventory_last_row_wins:
  assumes "load_rows pf ar [] rows = Inr T"
    and "map (load_row pf ar) rows = map Inr entries"
  shows "list_all2 (\<lambda>r e. \<exists>n. r ''name'' = Some (Some n) \<and> fst e = lower n) rows entries \<and>
    distinct (map fst T) \<and>
    set (map fst T) = set (map fst entries) \<and>
    map_of T = map_of (rev entries) \<and>
    (list_all (\<lambda>(name, it). pf (rp (price it)) = Some (price it)) T \<longrightarrow>
       load_rows pf ar [] (map (save_row rp) T) = Inr T) \<and>
    length (map (save_row rp) T) \<le> length rows \<and>
    (length (map (save_row rp) T) = length rows \<longleftrightarrow> distinct (map fst entries))"
proof -
  have T: "T = fold (\<lambda>e d. store d e) entries []"
    using load_rows_entries [OF assms(2), of "[]"] assms(1) by simp
  note dv = load_rows_derived [OF assms(1)]
  have keys: "set (map fst T) = set (map fst entries)"
    using fold_store_keys [of entries "[]"] by (simp add: T)
  have look: "map_of T = map_of (rev entries)"
    using fold_store_map_of [of entries "[]"] by (simp add: T)
  have rt: "list_all (\<lambda>(name, it). pf (rp (price it)) = Some (price it)) T \<Longrightarrow>
       load_rows pf ar [] (map (save_row rp) T) = Inr T"
    using load_rows_save_rows [where pre = "[]" and T = T and pf = pf and rp = rp and ar = ar] dv by simp
  have len: "length rows = length entries"
    using assms(2) by (metis length_map)
  have card: "length T = card (set (map fst entries))"
    using dv keys by (metis distinct_card length_map)
  have le: "length T \<le> length rows"
    unfolding card len by (metis card_length length_map)
  have eq: "length T = length rows \<longleftrightarrow> distinct (map fst entries)"
    unfolding card len by (metis card_distinct distinct_card length_map)
  show ?thesis
    using load_rows_names [OF assms(2)] dv keys look rt le eq by simp
qed


lemma example_rows_load:
  "load_row example_float binary64 (example_row ''Patty'' ''10'' ''20.00'' ''50'' ''5'') =
     Inr (''patty'', example_item 10 20 50 5)"
  "load_row example_float binary64 (example_row ''patty'' ''40'' ''8.5'' ''40'' ''5'') =
     Inr (''patty'', example_item 40 (17 / 2) 40 5)"
proof -
  have c: "lower ''Patty'' = ''patty''" "lower ''patty'' = ''patty''"
    "py_int ''10'' = Some 10" "py_int ''50'' = Some 50" "py_int ''5'' = Some 5"
    "py_int ''40'' = Some 40"
    by code_simp+
  have d: "div_float_int binary64 20 50 = Inr (per_unit_price (example_item 10 20 50 5))"
    "div_float_int binary64 (17 / 2) 40 = Inr (per_unit_price (example_item 40 (17 / 2) 40 5))"
    by code_simp+
  show "load_row example_float binary64 (example_row ''Patty'' ''10'' ''20.00'' ''50'' ''5'') =
     Inr (''patty'', example_item 10 20 50 5)"
    by (simp add: load_row_def example_row_def bind_err_def cell_def
        lower_cell_def int_cell_def float_cell_def example_float_def example_item_def c d)
  show "load_row example_float binary64 (example_row ''patty'' ''40'' ''8.5'' ''40'' ''5'') =
     Inr (''patty'', example_item 40 (17 / 2) 40 5)"
    by (simp add: load_row_def example_row_def bind_err_def cell_def
        lower_cell_def int_cell_def float_cell_def example_float_def example_item_def c d)
qed

text \<open>
  Against C10 as stated: a file whose two rows have the same lower-cased name, for which
  the round trip of the loaded table holds all the same.
\<close>

theorem round_trip_despite_collision:
  "(let rows = [example_row ''Patty'' ''10'' ''20.00'' ''50'' ''5'',
                example_row ''patty'' ''40'' ''8.5'' ''40'' ''5''];
        T = [(''patty'', example_item 40 (17 / 2) 40 5)]
    in lower ''Patty'' = lower ''patty'' \<and>
       load_rows example_float binary64 [] rows = Inr T \<and>
       load_rows example_float binary64 [] (map (save_row example_repr) T) = Inr T)"
proof -
  let ?rows = "[example_row ''Patty'' ''10'' ''20.00'' ''50'' ''5'',
                example_row ''patty'' ''40'' ''8.5'' ''40'' ''5'']"
  let ?T = "[(''patty'', example_item 40 (17 / 2) 40 5)]"
  have c: "lower ''Patty'' = lower ''patty''" "str_int 40 = ''40''" "str_int 5 = ''5''"
    by code_simp+
  have ld: "load_rows example_float binary64 [] ?rows = Inr ?T"
    by (simp add: example_rows_load)
  have sv: "map (save_row example_repr) ?T = [example_row ''patty'' ''40'' ''8.5'' ''40'' ''5'']"
    by (simp add: save_row_def example_row_def example_repr_def example_item_def c)
  have "load_rows example_float binary64 [] (map (save_row example_repr) ?T) = Inr ?T"
    unfolding sv by (simp add: example_rows_load)
  then show ?thesis
    using c(1) ld by (simp add: Let_def)
qed

theorem load_inventory_last_row_wins_witness:
  "(let rows = [example_row ''Patty'' ''10'' ''20.00'' ''50'' ''5'',
                example_row ''patty'' ''40'' ''8.5'' ''40'' ''5''];
        T = [(''patty'', example_item 40 (17 / 2) 40 5)]
    in load_rows example_float binary64 [] rows = Inr T \<and>
       map (load_row example_float binary64) rows =
         map Inr [(''patty'', example_item 10 20 50 5), (''patty'', example_item 40 (17 / 2) 40 5)] \<and>
       map_of T ''patty'' = Some (example_item 40 (17 / 2) 40 5) \<and>
       load_rows example_float binary64 [] (map (save_row example_repr) T) = Inr T \<and>
       length (map (save_row example_repr) T) < length rows)"
proof -
  let ?rows = "[example_row ''Patty'' ''10'' ''20.00'' ''50'' ''5'',
                example_row ''patty'' ''40'' ''8.5'' ''40'' ''5'']"
  let ?T = "[(''patty'', example_item 40 (17 / 2) 40 5)]"
  let ?entries = "[(''patty'', example_item 10 20 50 5), (''patty'', example_item 40 (17 / 2) 40 5)]"
  have ld: "load_rows example_float binary64 [] ?rows = Inr ?T"
    by (simp add: example_rows_load)
  have en: "map (load_row example_float binary64) ?rows = map Inr ?entries"
    by (simp add: example_rows_load)
  have rt: "list_all (\<lambda>(name, it). example_float (example_repr (price it)) = Some (price it)) ?T"
    by (simp add: example_float_def example_repr_def example_item_def)
  from load_inventory_last_row_wins [OF ld en, of example_repr] rt ld en
  show ?thesis
    by (simp add: Let_def)
qed

section \<open>The menu controller\<close>

lemma prefix_print: "prefix (stdout (print x s)) ys \<Longrightarrow> prefix (stdout s) ys"
  by (auto simp: print_def dest: prefix_append_left)

lemma out_print: "prefix (stdout s) (stdout (print x s))"
  by (simp add: print_def)

lemma out_show_rows: "prefix (stdout s) (stdout (show_rows i tbl s))"
  by (induction i tbl s rule: show_rows.induct) (auto dest: prefix_print)

lemma out_show_inventory: "prefix (stdout s) (stdout (show_inventory s))"
proof -
  have "prefix (stdout (print InventoryColumns (print InventoryHeader s)))
      (stdout (show_inventory s))"
    unfolding show_inventory_def
    using out_show_rows [of "print InventoryColumns (print InventoryHeader s)" 1 "inventory s"]
    by (simp add: print_def)
  then show ?thesis by (auto dest: prefix_print)
qed

lemma out_show_low_stock_alerts: "prefix (stdout s) (stdout (show_low_stock_alerts s))"
  by (simp add: show_low_stock_alerts_def alerts_loop_eq print_def)

lemma out_daily_loop: "prefix (stdout s) (stdout (snd (daily_loop i names s)))"
proof (induction names arbitrary: i s)
  case Nil
  then show ?case by simp
next
  case (Cons name names)
  show ?case
  proof (cases "stdin s")
    case Nil
    then show ?thesis by (simp add: input_def print_def)
  next
    case (Cons l ls)
    let ?s1 = "(print (DailyPrompt i (title name)) s)\<lparr>stdin := ls\<rparr>"
    have inp: "input (DailyPrompt i (title name)) s = (Inr l, ?s1)"
      by (simp add: input_def Cons)
    have p1: "prefix (stdout s) (stdout ?s1)" by (simp add: print_def)
    show ?thesis
    proof (cases "py_int l")
      case None
      have "prefix (stdout ?s1) (stdout (snd (daily_loop (Suc i) names (print InvalidSkipping ?s1))))"
        using Cons.IH [of "print InvalidSkipping ?s1" "Suc i"] by (rule prefix_print)
      with p1 have "prefix (stdout s)
          (stdout (snd (daily_loop (Suc i) names (print InvalidSkipping ?s1))))"
        by (rule prefix_order.trans)
      then show ?thesis by (simp add: inp None)
    next
      case (Some q)
      show ?thesis
      proof (cases "set_quantity (inventory ?s1) name q")
        case (Inl e)
        then show ?thesis using p1 by (simp add: inp Some)
      next
        case (Inr d)
        have "prefix (stdout ?s1) (stdout (snd (daily_loop (Suc i) names (?s1\<lparr>inventory := d\<rparr>))))"
          using Cons.IH [of "?s1\<lparr>inventory := d\<rparr>" "Suc i"] by simp
        with p1 have "prefix (stdout s)
            (stdout (snd (daily_loop (Suc i) names (?s1\<lparr>inventory := d\<rparr>))))"
          by (rule prefix_order.trans)
        then show ?thesis using Inr by (simp add: inp Some)
      qed
    qed
  qed
qed

lemma out_daily_inventory_entry: "prefix (stdout s) (stdout (snd (daily_inventory_entry s)))"
  unfolding daily_inventory_entry_def
  using out_daily_loop [of "print DailyHeader s" 1 "map fst (inventory s)"]
  by (auto dest: prefix_print)

lemma out_order_iter: "prefix (stdout s) (stdout (snd (snd (order_iter ar items order s))))"
  by (simp add: order_iter_def input_def Let_def print_def
      split: list.splits option.splits sum.splits)

lemma out_order_loop: "prefix (stdout s) (stdout (snd (snd (order_loop ar items order s))))"
proof (induction ar items order s rule: order_loop_induct)
  case (iter ar items order s)
  obtain f order' s' where it: "order_iter ar items order s = (f, order', s')"
    by (cases "order_iter ar items order s")
  have p: "prefix (stdout s) (stdout s')"
    using out_order_iter [of s ar items order] it by simp
  show ?case
  proof (cases f)
    case Continue
    have "prefix (stdout s') (stdout (snd (snd (order_loop ar items order' s'))))"
      using iter [of order' s'] it Continue by simp
    then show ?thesis
      unfolding order_loop_Continue [OF it [unfolded Continue]]
      using p by (rule prefix_order.trans [rotated])
  next
    case Break
    show ?thesis
      unfolding order_loop_Break [OF it [unfolded Break]] using p by simp
  next
    case (Raise e)
    show ?thesis
      unfolding order_loop_Raise [OF it [unfolded Raise]] using p by simp
  qed
qed

lemma out_order_summary: "prefix (stdout s) (stdout (order_summary ar order s))"
  by (cases "order = []") (simp_all add: order_summary_out order_summary_Nil)

lemma out_place_order: "prefix (stdout s) (stdout (snd (place_order ar s)))"
proof -
  let ?start = "print OrderHeader (show_inventory s)"
  obtain r order s' where ol: "order_loop ar (map fst (inventory ?start)) [] ?start = (r, order, s')"
    by (cases "order_loop ar (map fst (inventory ?start)) [] ?start")
  have 1: "prefix (stdout s) (stdout ?start)"
    using out_show_inventory [of s] out_print [of "show_inventory s" OrderHeader]
    by (rule prefix_order.trans)
  have 2: "prefix (stdout ?start) (stdout s')"
    using out_order_loop [of ?start ar "map fst (inventory ?start)" "[]"] ol by simp
  have 3: "prefix (stdout s') (stdout (order_summary ar order s'))"
    by (rule out_order_summary)
  have "prefix (stdout s) (stdout s')" using 1 2 by (rule prefix_order.trans)
  moreover have "prefix (stdout s) (stdout (order_summary ar order s'))"
    using calculation 3 by (rule prefix_order.trans)
  ultimately show ?thesis
    unfolding place_order_def Let_def ol by (cases r) simp_all
qed

lemma out_waste_entry: "prefix (stdout s) (stdout (snd (waste_entry ar s)))"
proof -
  obtain r acc s' where wl: "waste_loop ar 1 (inventory s) (fzero ar) (print WasteHeader s) = (r, acc, s')"
    by (cases "waste_loop ar 1 (inventory s) (fzero ar) (print WasteHeader s)")
  have 1: "prefix (stdout s) (stdout s')"
    using waste_loop_stdout [of "print WasteHeader s" ar 1 "inventory s" "fzero ar"] wl
    by (auto dest: prefix_print)
  then have "prefix (stdout s) (stdout (print (WasteTotal acc) s'))"
    using out_print [of s' "WasteTotal acc"] by (rule prefix_order.trans)
  then show ?thesis
    unfolding waste_entry_def wl using 1 by (cases r) simp_all
qed


lemma main_loop_Continue:
  "menu_iter rp ar s = (Continue, s') \<Longrightarrow> main_loop rp ar s = main_loop rp ar s'"
  by (simp add: main_loop.simps [of rp ar s])

lemma main_loop_Break:
  "menu_iter rp ar s = (Break, s') \<Longrightarrow> main_loop rp ar s = (None, s')"
  by (simp add: main_loop.simps [of rp ar s])

lemma main_loop_Raise:
  "menu_iter rp ar s = (Raise e, s') \<Longrightarrow> main_loop rp ar s = (Some e, s')"
  by (simp add: main_loop.simps [of rp ar s])

lemma main_loop_induct [consumes 0, case_names iter]:
  assumes "\<And>rp ar s. (\<And>s'. menu_iter rp ar s = (Continue, s') \<Longrightarrow> P rp ar s') \<Longrightarrow> P rp ar s"
  shows "P rp ar s"
proof (induction rp ar s rule: main_loop.induct)
  case (1 rp ar s)
  show ?case
  proof (rule assms)
    fix s'
    assume "menu_iter rp ar s = (Continue, s')"
    then show "P rp ar s'"
      using "1.IH" [of Continue s'] by simp
  qed
qed

lemma out_menu_iter:
  "prefix (stdout s @ [Menu, OptionPrompt]) (stdout (snd (menu_iter rp ar s)))"
proof (cases "stdin s")
  case Nil
  then show ?thesis by (simp add: menu_iter_def input_def print_def)
next
  case (Cons l ls)
  let ?s1 = "(print OptionPrompt (print Menu s))\<lparr>stdin := ls\<rparr>"
  have inp: "input OptionPrompt (print Menu s) = (Inr l, ?s1)"
    by (simp add: input_def print_def Cons)
  have o1: "stdout ?s1 = stdout s @ [Menu, OptionPrompt]"
    by (simp add: print_def)
  let ?a = "show_low_stock_alerts ?s1"
  have a: "prefix (stdout ?s1) (stdout ?a)"
    by (rule out_show_low_stock_alerts)
  have 1: "prefix (stdout ?s1) (stdout (show_inventory ?a))"
    using a out_show_inventory by (rule prefix_order.trans)
  have 2: "prefix (stdout ?s1) (stdout (snd (daily_inventory_entry ?a)))"
    using a out_daily_inventory_entry by (rule prefix_order.trans)
  have 3: "prefix (stdout ?s1) (stdout (snd (place_order ar ?a)))"
    using a out_place_order by (rule prefix_order.trans)
  have 4: "prefix (stdout ?s1) (stdout (snd (waste_entry ar ?s1)))"
    by (rule out_waste_entry)
  have 5: "prefix (stdout ?s1) (stdout (print SavedExiting (save_inventory rp ?s1)))"
    by (simp add: print_def save_inventory_def)
  have 6: "prefix (stdout ?s1) (stdout (print InvalidOption ?s1))"
    by (rule out_print)
  have "prefix (stdout ?s1) (stdout (snd (menu_iter rp ar s)))"
    unfolding menu_iter_def inp Let_def
    using 1 2 3 4 5 6
    by (cases "daily_inventory_entry ?a"; cases "place_order ar ?a"; cases "waste_entry ar ?s1")
       (simp split: option.splits)
  then show ?thesis by (simp only: o1)
qed

lemma out_main_loop:
  "prefix (stdout s @ [Menu, OptionPrompt]) (stdout (snd (main_loop rp ar s)))"
proof (induction rp ar s rule: main_loop_induct)
  case (iter rp ar s)
  obtain f s' where it: "menu_iter rp ar s = (f, s')"
    by (cases "menu_iter rp ar s")
  have p: "prefix (stdout s @ [Menu, OptionPrompt]) (stdout s')"
    using out_menu_iter [of s rp ar] it by simp
  show ?case
  proof (cases f)
    case Continue
    have "prefix (stdout s' @ [Menu, OptionPrompt]) (stdout (snd (main_loop rp ar s')))"
      using iter [of s'] it Continue by simp
    then have "prefix (stdout s') (stdout (snd (main_loop rp ar s')))"
      by (rule prefix_append_left)
    with p show ?thesis
      unfolding main_loop_Continue [OF it [unfolded Continue]]
      by (rule prefix_order.trans)
  next
    case Break
    show ?thesis
      unfolding main_loop_Break [OF it [unfolded Break]] using p by simp
  next
    case (Raise e)
    show ?thesis
      unfolding main_loop_Raise [OF it [unfolded Raise]] using p by simp
  qed
qed

text \<open>
  C9: when the file does not exist, the loader prints that it was not found and returns
  the empty table; \<open>main\<close> does not stop there but runs the menu loop on the empty
  table, after the low-stock scan has reported that all is stocked: whatever is typed,
  the output goes on with the menu and the prompt for an option.
\<close>

theorem main_missing_file:
  assumes "disk s = None"
  shows "load_inventory pf ar s = (Inr [], print NotFound s) \<and>
    main pf rp ar s =
      main_loop rp ar (s\<lparr>inventory := [],
                       stdout := stdout s @ [NotFound, AlertsHeader, AllStocked]\<rparr>) \<and>
    prefix (stdout s @ [NotFound, AlertsHeader, AllStocked, Menu, OptionPrompt])
      (stdout (snd (main pf rp ar s)))"
proof -
  let ?start = "s\<lparr>inventory := [], stdout := stdout s @ [NotFound, AlertsHeader, AllStocked]\<rparr>"
  have ld: "load_inventory pf ar s = (Inr [], print NotFound s)"
    using assms by (simp add: load_inventory_def)
  have al: "show_low_stock_alerts ((print NotFound s)\<lparr>inventory := []\<rparr>) = ?start"
    by (simp add: show_low_stock_alerts_def print_def)
  have mn: "main pf rp ar s = main_loop rp ar ?start"
    by (simp add: main_def ld al)
  have "prefix (stdout ?start @ [Menu, OptionPrompt]) (stdout (snd (main_loop rp ar ?start)))"
    by (rule out_main_loop)
  then show ?thesis
    using ld mn by simp
qed

theorem main_missing_file_witness:
  "main example_float example_repr binary64
     \<lparr>inventory = [], disk = None, stdin = [''5''], stdout = []\<rparr>
   = (None, \<lparr>inventory = [], disk = Some [], stdin = [],
              stdout = [NotFound, AlertsHeader, AllStocked, Menu, OptionPrompt, SavedExiting]\<rparr>)"
proof -
  let ?s = "\<lparr>inventory = [], disk = None, stdin = [''5''], stdout = []\<rparr>"
  let ?start = "?s\<lparr>inventory := [], stdout := stdout ?s @ [NotFound, AlertsHeader, AllStocked]\<rparr>"
  have c: "strip ''5'' = ''5''" by code_simp
  have it: "menu_iter example_repr binary64 ?start =
      (Break, \<lparr>inventory = [], disk = Some [], stdin = [],
              stdout = [NotFound, AlertsHeader, AllStocked, Menu, OptionPrompt, SavedExiting]\<rparr>)"
    by (simp add: menu_iter_def input_def print_def save_inventory_def c)
  have "disk ?s = None" by simp
  from main_missing_file [OF this, of example_float binary64 example_repr] main_loop_Break [OF it]
  show ?thesis by simp
qed

end
